theory Spec2Isabelle
  imports Main "HOL-Library.Sublist"
begin

section \<open>Strings\<close>

text \<open>
  A JavaScript string is a sequence of UTF-16 code units, and \<open>length\<close>, \<open>slice\<close>,
  \<open>startsWith\<close> and the regular expressions of the source count and compare code units.
  The model writes a string as a \<^typ>\<open>string\<close> whose characters are the code units
  U+0000 to U+00FF, so every statement below is about strings in that range.
\<close>

definition str_startsWith :: "string \<Rightarrow> string \<Rightarrow> bool" where
  "str_startsWith s pat = prefix pat s"

definition str_endsWith :: "string \<Rightarrow> string \<Rightarrow> bool" where
  "str_endsWith s pat = suffix pat s"

fun str_includes :: "string \<Rightarrow> string \<Rightarrow> bool" where
  "str_includes [] pat = (pat = [])"
| "str_includes (c # cs) pat = (prefix pat (c # cs) \<or> str_includes cs pat)"

text \<open>\<open>s.replace(pat, rep)\<close> with a string pattern: the first occurrence only.\<close>

fun replace_first :: "string \<Rightarrow> string \<Rightarrow> string \<Rightarrow> string" where
  "replace_first pat rep [] = (if pat = [] then rep else [])"
| "replace_first pat rep (c # cs) =
     (if prefix pat (c # cs) then rep @ drop (length pat) (c # cs)
      else c # replace_first pat rep cs)"

text \<open>\<open>s.split(c)\<close> for a separator of one character; the empty string gives one empty part.\<close>

fun split_on :: "char \<Rightarrow> string \<Rightarrow> string list" where
  "split_on sep [] = [[]]"
| "split_on sep (c # cs) =
     (if c = sep then [] # split_on sep cs
      else (case split_on sep cs of
              [] \<Rightarrow> [[c]]
            | p # ps \<Rightarrow> (c # p) # ps))"

fun join_with :: "string \<Rightarrow> string list \<Rightarrow> string" where
  "join_with sep [] = []"
| "join_with sep [s] = s"
| "join_with sep (s # t # ss) = s @ sep @ join_with sep (t # ss)"

definition upper_chars :: "char list" where
  "upper_chars = ''ABCDEFGHIJKLMNOPQRSTUVWXYZ'' @
     [CHR 0xC0, CHR 0xC1, CHR 0xC2, CHR 0xC3, CHR 0xC4, CHR 0xC5, CHR 0xC6, CHR 0xC7,
      CHR 0xC8, CHR 0xC9, CHR 0xCA, CHR 0xCB, CHR 0xCC, CHR 0xCD, CHR 0xCE, CHR 0xCF,
      CHR 0xD0, CHR 0xD1, CHR 0xD2, CHR 0xD3, CHR 0xD4, CHR 0xD5, CHR 0xD6,
      CHR 0xD8, CHR 0xD9, CHR 0xDA, CHR 0xDB, CHR 0xDC, CHR 0xDD, CHR 0xDE]"

definition lower_chars :: "char list" where
  "lower_chars = ''abcdefghijklmnopqrstuvwxyz'' @
     [CHR 0xE0, CHR 0xE1, CHR 0xE2, CHR 0xE3, CHR 0xE4, CHR 0xE5, CHR 0xE6, CHR 0xE7,
      CHR 0xE8, CHR 0xE9, CHR 0xEA, CHR 0xEB, CHR 0xEC, CHR 0xED, CHR 0xEE, CHR 0xEF,
      CHR 0xF0, CHR 0xF1, CHR 0xF2, CHR 0xF3, CHR 0xF4, CHR 0xF5, CHR 0xF6,
      CHR 0xF8, CHR 0xF9, CHR 0xFA, CHR 0xFB, CHR 0xFC, CHR 0xFD, CHR 0xFE]"

definition lower_char :: "char \<Rightarrow> char" where
  "lower_char c = (case map_of (zip upper_chars lower_chars) c of Some d \<Rightarrow> d | None \<Rightarrow> c)"

definition toLowerCase :: "string \<Rightarrow> string" where
  "toLowerCase s = map lower_char s"

text \<open>The character classes of the source's regular expressions, on U+0000 to U+00FF.\<close>

definition is_digit :: "char \<Rightarrow> bool" where
  "is_digit c = (c \<in> set ''0123456789'')"

definition is_word_char :: "char \<Rightarrow> bool" where
  "is_word_char c =
     (c \<in> set ''abcdefghijklmnopqrstuvwxyzABCDEFGHIJKLMNOPQRSTUVWXYZ0123456789_'')"

definition is_line_terminator :: "char \<Rightarrow> bool" where
  "is_line_terminator c = (c = CHR 0x0A \<or> c = CHR 0x0D)"

definition is_space :: "char \<Rightarrow> bool" where
  "is_space c = (c \<in> set [CHR 0x09, CHR 0x0A, CHR 0x0B, CHR 0x0C, CHR 0x0D, CHR 0x20, CHR 0xA0])"

definition str_trim :: "string \<Rightarrow> string" where
  "str_trim s = rev (dropWhile is_space (rev (dropWhile is_space s)))"

section \<open>The path module (POSIX)\<close>

text \<open>
  \<open>normalizeString\<close> of Node's path module, read segment by segment: empty segments and
  \<open>.\<close> are dropped, \<open>..\<close> removes the segment before it, and where there is none it is
  kept only when the path may climb above its start.
\<close>

definition norm_step :: "bool \<Rightarrow> string list \<Rightarrow> string \<Rightarrow> string list" where
  "norm_step allowAboveRoot stack seg =
     (if seg = [] \<or> seg = ''.'' then stack
      else if seg = ''..'' then
        (if stack \<noteq> [] \<and> last stack \<noteq> ''..'' then butlast stack
         else if allowAboveRoot then stack @ [''..'']
         else stack)
      else stack @ [seg])"

definition norm_segments :: "string \<Rightarrow> bool \<Rightarrow> string list" where
  "norm_segments p allowAboveRoot = foldl (norm_step allowAboveRoot) [] (split_on CHR ''/'' p)"

definition normalizeString :: "string \<Rightarrow> bool \<Rightarrow> string" where
  "normalizeString p allowAboveRoot = join_with ''/'' (norm_segments p allowAboveRoot)"

definition isAbsolute :: "string \<Rightarrow> bool" where
  "isAbsolute p = (case p of [] \<Rightarrow> False | c # _ \<Rightarrow> c = CHR ''/'')"

text \<open>
  \<open>path.resolve\<close> walks its arguments from the right, and then the working directory,
  until the collected path is absolute; empty arguments are skipped.
\<close>

fun resolve_collect :: "string list \<Rightarrow> string \<Rightarrow> string \<times> bool" where
  "resolve_collect [] acc = (acc, False)"
| "resolve_collect (p # ps) acc =
     (if p = [] then resolve_collect ps acc
      else if isAbsolute p then (p @ ''/'' @ acc, True)
      else resolve_collect ps (p @ ''/'' @ acc))"

definition path_resolve :: "string \<Rightarrow> string list \<Rightarrow> string" where
  "path_resolve cwd args =
     (case resolve_collect (rev args @ [cwd]) [] of
        (collected, resolvedAbsolute) \<Rightarrow>
          (let resolvedPath = normalizeString collected (\<not> resolvedAbsolute)
           in if resolvedAbsolute then ''/'' @ resolvedPath
              else if resolvedPath \<noteq> [] then resolvedPath
              else ''.''))"

definition path_normalize :: "string \<Rightarrow> string" where
  "path_normalize p =
     (if p = [] then ''.''
      else
        (let absolute = isAbsolute p;
             trailingSeparator = (last p = CHR ''/'');
             n = normalizeString p (\<not> absolute)
         in if n = [] then
              (if absolute then ''/'' else if trailingSeparator then ''./'' else ''.'')
            else
              (let n' = (if trailingSeparator then n @ ''/'' else n)
               in if absolute then ''/'' @ n' else n')))"

definition path_join :: "string list \<Rightarrow> string" where
  "path_join args =
     (let joined = join_with ''/'' (filter (\<lambda>a. a \<noteq> []) args)
      in if joined = [] then ''.'' else path_normalize joined)"

definition path_segments :: "string \<Rightarrow> string list" where
  "path_segments p = filter (\<lambda>s. s \<noteq> []) (split_on CHR ''/'' p)"

definition path_basename :: "string \<Rightarrow> string" where
  "path_basename p = (case path_segments p of [] \<Rightarrow> [] | s # ss \<Rightarrow> last (s # ss))"

text \<open>
  \<open>path.extname\<close>: from the last dot of the last component to its end; empty when there
  is no dot, when the only dot is the first character, and for the component \<open>..\<close>.
\<close>

definition path_extname :: "string \<Rightarrow> string" where
  "path_extname p =
     (let b = path_basename p;
          after = rev (takeWhile (\<lambda>c. c \<noteq> CHR ''.'') (rev b))
      in if CHR ''.'' \<notin> set b then []
         else if Suc (length after) = length b then []
         else if b = ''..'' then []
         else CHR ''.'' # after)"

fun common_prefix_len :: "string list \<Rightarrow> string list \<Rightarrow> nat" where
  "common_prefix_len (x # xs) (y # ys) = (if x = y then Suc (common_prefix_len xs ys) else 0)"
| "common_prefix_len _ _ = 0"

text \<open>
  \<open>path.relative\<close>: both paths are resolved; the result climbs from the first to the
  common ancestor and descends to the second.
\<close>

definition path_relative :: "string \<Rightarrow> string \<Rightarrow> string \<Rightarrow> string" where
  "path_relative cwd from to =
     (let f = path_resolve cwd [from];
          t = path_resolve cwd [to]
      in if f = t then []
         else
           (let fs = path_segments f;
                ts = path_segments t;
                k = common_prefix_len fs ts
            in join_with ''/'' (replicate (length fs - k) ''..'' @ drop k ts)))"

section \<open>Errors\<close>

datatype error =
    PathOutsideRepo string
  | SensitivePath string
  | IgnoredPath string
  | NoFilesInDiff
  | PatchSensitivePath string
  | PatchIgnoredPath string
  | PatchNonAllowedFile string
  | DeleteRefused
  | SpawnError string
  | PatchApplyFailure string "int option"
  | ReadFileError string
  | ReaddirError string
  | PromptNotFound string
  | ExecError string
  | BackendError string
  | NoFinalResponse
  | ValidationError string
  | VerificationFailed

section \<open>Safety Boundary\<close>

definition DEFAULT_IGNORES :: "string list" where
  "DEFAULT_IGNORES =
     [''node_modules'', ''.git'', ''dist'', ''build'', ''.next'', ''DerivedData'',
      ''derived data'', ''vendor'']"

definition SENSITIVE_EXTENSIONS :: "string list" where
  "SENSITIVE_EXTENSIONS = [''.env'', ''.key'', ''.pem'', ''.crt'', ''.p12'', ''.pfx'', ''.cer'']"

definition SENSITIVE_FILENAMES :: "string list" where
  "SENSITIVE_FILENAMES = [''.env'', ''.env.local'', ''.env.production'', ''.env.development'']"

definition isSensitivePath :: "string \<Rightarrow> bool" where
  "isSensitivePath resolvedPath =
     (let base = toLowerCase (path_basename resolvedPath)
      in if base \<in> set SENSITIVE_FILENAMES then True
         else if path_extname base \<in> set SENSITIVE_EXTENSIONS then True
         else str_includes base ''secret'' \<or> str_includes base ''certificate''
              \<or> str_includes base ''private'')"

definition containsIgnoredSegment :: "string \<Rightarrow> bool" where
  "containsIgnoredSegment resolvedPath =
     (let segments = map toLowerCase (split_on CHR ''/'' resolvedPath)
      in list_ex (\<lambda>ignore. toLowerCase ignore \<in> set segments) DEFAULT_IGNORES)"

definition shouldIgnore :: "string \<Rightarrow> bool" where
  "shouldIgnore name = list_ex (\<lambda>ignore. toLowerCase ignore = toLowerCase name) DEFAULT_IGNORES"

definition resolveSafePath :: "string \<Rightarrow> string \<Rightarrow> string \<Rightarrow> error + string" where
  "resolveSafePath cwd root inputPath =
     (let resolved = path_resolve cwd [root, inputPath]
      in if \<not> str_startsWith resolved root then Inl (PathOutsideRepo inputPath)
         else if isSensitivePath resolved then Inl (SensitivePath inputPath)
         else if containsIgnoredSegment resolved then Inl (IgnoredPath inputPath)
         else Inr resolved)"

text \<open>
  The ancestor chain of an absolute path: the path itself, its parent directory, and so
  on up to the file system root. A path lies inside \<open>root\<close> when \<open>root\<close> is on the chain.
\<close>

definition ancestor_chain :: "string \<Rightarrow> string list" where
  "ancestor_chain p =
     (let segs = path_segments p
      in map (\<lambda>k. ''/'' @ join_with ''/'' (take k segs)) (rev [0 ..< Suc (length segs)]))"

definition inside_root :: "string \<Rightarrow> string \<Rightarrow> bool" where
  "inside_root root p = (root \<in> set (ancestor_chain p))"

section \<open>The environment\<close>

text \<open>
  Everything outside the process is an oracle over an environment state \<open>'x\<close>: the file
  system, the shell, the \<open>git apply\<close> child process, the reasoning backend and the clock.
  The world pairs that state with the trace of external effects performed so far, oldest
  first. A computation takes a world and returns a result or an error, and the new world.
\<close>

datatype event =
    EvReadFile string
  | EvReaddir string
  | EvExec string string
  | EvSpawn string "string list" string string
  | EvBackend string
  | EvClock

record 'x world =
  trace :: "event list"
  ext :: 'x

datatype dirent_kind = IsDirectory | IsFile | IsOther

datatype dirent = Dirent (d_name: string) (d_kind: dirent_kind)

text \<open>
  How \<open>execFile\<close> settles: fulfilled with both streams, rejected with an error object that
  carries \<open>stdout\<close> and \<open>stderr\<close> (each possibly null) and possibly an exit code, or
  rejected with anything else.
\<close>

datatype exec_outcome =
    ExecOk string string
  | ExecFailed "string option" "string option" "int option"
  | ExecThrown string

text \<open>
  How the spawned child ends: an \<open>error\<close> event, or \<open>close\<close> with an exit code (null when
  a signal ended it) after the chunks written to its standard error.
\<close>

datatype spawn_outcome =
    SpawnErrored string
  | SpawnClosed "int option" "string list"

text \<open>What the backend thread's \<open>run\<close> gives: a string, an object with or without
  \<open>finalResponse\<close>, or a failure.\<close>

datatype backend_outcome =
    RunString string
  | RunObject "string option"
  | RunThrown string

record Plan =
  goal :: string
  steps :: "string list"
  read :: "string list option"
  search :: "string list option"
  edit :: "string list option"
  commands :: "string list option"
  acceptance :: "string list"

record CommandResult =
  stdout :: string
  stderr :: string
  exitCode :: int

text \<open>The input object of the backend call made by the verification loop.\<close>

record fix_input =
  in_task :: string
  in_plan :: Plan
  in_diff :: string
  in_command :: string
  in_output :: string
  in_errors :: string
  in_context :: "string \<rightharpoonup> string"

text \<open>
  A JavaScript number is an IEEE double: a finite value \<open>m * 2 ^ e\<close> given by the two
  integers, or one of the three special values. No function below computes with one.
\<close>

datatype jsnumber = Finite int int | NaN | PosInfinity | NegInfinity

datatype jsval =
    JUndefined
  | JNull
  | JBool bool
  | JNumber jsnumber
  | JString string
  | JArray "jsval list"
  | JObject "(string \<times> jsval) list"

record 'x env =
  process_cwd :: string
  module_dir :: string
  fs_readFile :: "string \<Rightarrow> 'x \<Rightarrow> string option"
  fs_readdir :: "string \<Rightarrow> 'x \<Rightarrow> dirent list option"
  exec_shell :: "string \<Rightarrow> string \<Rightarrow> 'x \<Rightarrow> exec_outcome \<times> 'x"
  spawn_git :: "string list \<Rightarrow> string \<Rightarrow> string \<Rightarrow> 'x \<Rightarrow> spawn_outcome \<times> 'x"
  thread_run :: "string \<Rightarrow> fix_input \<Rightarrow> 'x \<Rightarrow> backend_outcome \<times> 'x"
  clock_now :: "'x \<Rightarrow> string \<times> 'x"
  json_parse :: "string \<Rightarrow> jsval option"

type_synonym ('x, 'a) io = "'x world \<Rightarrow> (error + 'a) \<times> 'x world"

definition io_return :: "'a \<Rightarrow> ('x, 'a) io" where
  "io_return a = (\<lambda>w. (Inr a, w))"

definition io_throw :: "error \<Rightarrow> ('x, 'a) io" where
  "io_throw e = (\<lambda>w. (Inl e, w))"

definition io_bind :: "('x, 'a) io \<Rightarrow> ('a \<Rightarrow> ('x, 'b) io) \<Rightarrow> ('x, 'b) io" where
  "io_bind m f = (\<lambda>w. case m w of (Inl e, w') \<Rightarrow> (Inl e, w') | (Inr a, w') \<Rightarrow> f a w')"

definition log_event :: "event \<Rightarrow> 'x world \<Rightarrow> 'x world" where
  "log_event ev w = w\<lparr>trace := trace w @ [ev]\<rparr>"

text \<open>\<open>fs.readFile(path, "utf8")\<close>: the decoded text of the file, or a rejection.\<close>

definition readFile :: "'x env \<Rightarrow> string \<Rightarrow> ('x, string) io" where
  "readFile env path = (\<lambda>w.
     (case fs_readFile env path (ext w) of
        None \<Rightarrow> Inl (ReadFileError path)
      | Some data \<Rightarrow> Inr data,
      log_event (EvReadFile path) w))"

definition readdir :: "'x env \<Rightarrow> string \<Rightarrow> ('x, dirent list) io" where
  "readdir env path = (\<lambda>w.
     (case fs_readdir env path (ext w) of
        None \<Rightarrow> Inl (ReaddirError path)
      | Some entries \<Rightarrow> Inr entries,
      log_event (EvReaddir path) w))"

text \<open>
  The size in bytes of a file whose decoded text is \<open>s\<close>: UTF-8 takes one byte for a code
  unit below U+0080 and two bytes for U+0080 to U+00FF.
\<close>

definition utf8_length :: "string \<Rightarrow> nat" where
  "utf8_length s = sum_list (map (\<lambda>c. if (of_char c :: nat) < 128 then 1 else 2) s)"

section \<open>Repository Context Provider\<close>

definition readFileCapped :: "'x env \<Rightarrow> string \<Rightarrow> nat \<Rightarrow> ('x, string) io" where
  "readFileCapped env filePath limit =
     io_bind (readFile env filePath)
       (\<lambda>data. io_return (if length data \<le> limit then data else take limit data))"

text \<open>
  \<open>results[file] = content\<close> on a plain object: an own property is stored, except that an
  assignment of a string to the key \<open>__proto__\<close> reaches the prototype setter, which
  ignores a value that is not an object, and stores nothing.
\<close>

definition record_set :: "(string \<rightharpoonup> 'v) \<Rightarrow> string \<Rightarrow> 'v \<Rightarrow> (string \<rightharpoonup> 'v)" where
  "record_set obj key v = (if key = ''__proto__'' then obj else obj(key \<mapsto> v))"

fun readFilesSafe_loop ::
  "'x env \<Rightarrow> string \<Rightarrow> string list \<Rightarrow> (string \<rightharpoonup> string) \<Rightarrow> ('x, string \<rightharpoonup> string) io" where
  "readFilesSafe_loop env root [] results w = (Inr results, w)"
| "readFilesSafe_loop env root (file # files) results w =
     (case resolveSafePath (process_cwd env) root file of
        Inl e \<Rightarrow> (Inl e, w)
      | Inr resolved \<Rightarrow>
          (case readFileCapped env resolved 60000 w of
             (Inl e, w') \<Rightarrow> (Inl e, w')
           | (Inr content, w') \<Rightarrow>
               readFilesSafe_loop env root files (record_set results file content) w'))"

definition readFilesSafe :: "'x env \<Rightarrow> string \<Rightarrow> string list \<Rightarrow> ('x, string \<rightharpoonup> string) io" where
  "readFilesSafe env root files = readFilesSafe_loop env root files Map.empty"

definition indent :: "nat \<Rightarrow> string" where
  "indent n = concat (replicate n ''  '')"

definition rel_line :: "'x env \<Rightarrow> string \<Rightarrow> string \<Rightarrow> nat \<Rightarrow> string" where
  "rel_line env root current currentDepth =
     (let r = path_relative (process_cwd env) root current;
          rel = (if r = [] then ''.'' else r)
      in indent currentDepth @ rel @ ''/'')"

function
  walk :: "'x env \<Rightarrow> string \<Rightarrow> nat \<Rightarrow> string \<Rightarrow> nat \<Rightarrow> string list \<Rightarrow> ('x, string list) io"
and
  walk_entries ::
    "'x env \<Rightarrow> string \<Rightarrow> nat \<Rightarrow> string \<Rightarrow> nat \<Rightarrow> dirent list \<Rightarrow> string list \<Rightarrow> ('x, string list) io"
where
  "walk env root depth current currentDepth lines w =
     (if currentDepth > depth then (Inr lines, w)
      else
        (case readdir env current w of
           (Inl e, w') \<Rightarrow> (Inl e, w')
         | (Inr entries, w') \<Rightarrow>
             walk_entries env root depth current currentDepth entries
               (lines @ [rel_line env root current currentDepth]) w'))"
| "walk_entries env root depth current currentDepth [] lines w = (Inr lines, w)"
| "walk_entries env root depth current currentDepth (entry # entries) lines w =
     (if d_kind entry = IsDirectory then
        (if shouldIgnore (d_name entry) then
           walk_entries env root depth current currentDepth entries lines w
         else
           (case walk env root depth (path_join [current, d_name entry]) (currentDepth + 1) lines w of
              (Inl e, w') \<Rightarrow> (Inl e, w')
            | (Inr lines', w') \<Rightarrow>
                walk_entries env root depth current currentDepth entries lines' w'))
      else if d_kind entry = IsFile then
        walk_entries env root depth current currentDepth entries
          (lines @ [indent (currentDepth + 1) @ d_name entry]) w
      else walk_entries env root depth current currentDepth entries lines w)"
  by pat_completeness auto
termination
  by (relation "measures
        [\<lambda>a. case a of
               Inl (env, root, depth, current, currentDepth, lines, w) \<Rightarrow>
                 (if currentDepth > depth then 0 else 2 * (depth - currentDepth) + 3)
             | Inr (env, root, depth, current, currentDepth, entries, lines, w) \<Rightarrow>
                 2 * (depth - currentDepth) + 2,
         \<lambda>a. case a of
               Inl _ \<Rightarrow> 0
             | Inr (env, root, depth, current, currentDepth, entries, lines, w) \<Rightarrow>
                 length entries]")
     auto

definition buildRepoMap :: "'x env \<Rightarrow> string \<Rightarrow> nat \<Rightarrow> ('x, string) io" where
  "buildRepoMap env root depth =
     io_bind (walk env root depth root 0 []) (\<lambda>lines. io_return (join_with [CHR 0x0A] lines))"

text \<open>\<open>readPrompt\<close> tries four candidate paths in order; the first file that reads wins.\<close>

fun readPrompt_loop :: "'x env \<Rightarrow> string \<Rightarrow> string list \<Rightarrow> ('x, string) io" where
  "readPrompt_loop env name [] w = (Inl (PromptNotFound name), w)"
| "readPrompt_loop env name (promptPath # candidatePaths) w =
     (case readFile env promptPath w of
        (Inr text, w') \<Rightarrow> (Inr text, w')
      | (Inl e, w') \<Rightarrow> readPrompt_loop env name candidatePaths w')"

definition readPrompt :: "'x env \<Rightarrow> string \<Rightarrow> ('x, string) io" where
  "readPrompt env name =
     (let cwd = process_cwd env
      in readPrompt_loop env name
           [path_resolve cwd [module_dir env, ''prompts'', name],
            path_resolve cwd [cwd, ''src'', ''prompts'', name],
            path_resolve cwd [cwd, ''dist'', ''prompts'', name],
            path_resolve cwd [cwd, ''tools'', ''codex-roles-cli'', ''src'', ''prompts'', name]])"

definition runCommand :: "'x env \<Rightarrow> string \<Rightarrow> string \<Rightarrow> ('x, CommandResult) io" where
  "runCommand env command cwd = (\<lambda>w.
     (case exec_shell env command cwd (ext w) of
        (outcome, x') \<Rightarrow>
          ((case outcome of
              ExecOk out err \<Rightarrow> Inr \<lparr>stdout = out, stderr = err, exitCode = 0\<rparr>
            | ExecFailed out err code \<Rightarrow>
                Inr \<lparr>stdout = (case out of None \<Rightarrow> [] | Some s \<Rightarrow> s),
                     stderr = (case err of None \<Rightarrow> [] | Some s \<Rightarrow> s),
                     exitCode = (case code of None \<Rightarrow> 1 | Some c \<Rightarrow> c)\<rparr>
            | ExecThrown msg \<Rightarrow> Inl (ExecError msg)),
           log_event (EvExec command cwd) (w\<lparr>ext := x'\<rparr>))))"

text \<open>
  \<open>extractFilePaths\<close> collects the matches of
  \<^verbatim>\<open>/(?:^|\s)([\w./-]+\.[\w]+)(?::\d+)?/gm\<close>.
  \<open>match_body\<close> is the part after the first group, tried at the head of a string: the
  longest run of path characters is taken, then given back until a dot followed by a word
  character is found, then the word characters after it, then a colon and digits if there
  are any.
\<close>

definition is_path_char :: "char \<Rightarrow> bool" where
  "is_path_char c = (is_word_char c \<or> c = CHR ''.'' \<or> c = CHR ''/'' \<or> c = CHR ''-'')"

definition match_body :: "string \<Rightarrow> string option" where
  "match_body s =
     (let run = takeWhile is_path_char s;
          ks = filter (\<lambda>k. run ! k = CHR ''.'' \<and> is_word_char (run ! Suc k))
                 [1 ..< length run - 1]
      in if ks = [] then None
         else
           (let k = last ks;
                file = take (Suc k) run @ takeWhile is_word_char (drop (Suc k) run);
                rest = drop (length file) s;
                line_no =
                  (case rest of
                     [] \<Rightarrow> []
                   | c # ds \<Rightarrow>
                       (if c = CHR '':'' \<and> takeWhile is_digit ds \<noteq> []
                        then c # takeWhile is_digit ds else []))
            in Some (file @ line_no)))"

text \<open>A match at a position: \<open>^\<close> at a line start is tried first, then one space character.\<close>

definition match_at :: "bool \<Rightarrow> string \<Rightarrow> string option" where
  "match_at line_start s =
     (case (if line_start then match_body s else None) of
        Some m \<Rightarrow> Some m
      | None \<Rightarrow>
          (case s of
             [] \<Rightarrow> None
           | c # cs \<Rightarrow>
               (if is_space c then
                  (case match_body cs of None \<Rightarrow> None | Some m \<Rightarrow> Some (c # m))
                else None)))"

text \<open>
  The global scan: positions are tried from left to right; after a match the search
  resumes at its end, so the positions inside it are skipped.
\<close>

fun scan_matches :: "bool \<Rightarrow> nat \<Rightarrow> string \<Rightarrow> string list" where
  "scan_matches line_start skip [] = []"
| "scan_matches line_start skip (c # cs) =
     (if skip > 0 then scan_matches (is_line_terminator c) (skip - 1) cs
      else
        (case match_at line_start (c # cs) of
           Some m \<Rightarrow> m # scan_matches (is_line_terminator c) (length m - 1) cs
         | None \<Rightarrow> scan_matches (is_line_terminator c) 0 cs))"

text \<open>\<open>Array.from(new Set(xs))\<close> keeps the first occurrence of each element.\<close>

definition dedupe :: "'a list \<Rightarrow> 'a list" where
  "dedupe xs = rev (remdups (rev xs))"

definition extractFilePaths :: "string \<Rightarrow> string list" where
  "extractFilePaths output =
     (let matches = scan_matches True 0 output;
          cleaned = filter (\<lambda>m. m \<noteq> []) (map str_trim matches)
      in dedupe cleaned)"

section \<open>Patch Application Guard\<close>

record PatchOptions =
  opt_root :: string
  opt_allowDelete :: "bool option"
  opt_allowedExtensions :: "string list option"

fun split_lines :: "string \<Rightarrow> string list" where
  "split_lines [] = [[]]"
| "split_lines (c # cs) =
     (if is_line_terminator c then [] # split_lines cs
      else (case split_lines cs of
              [] \<Rightarrow> [[c]]
            | l # ls \<Rightarrow> (c # l) # ls))"

text \<open>
  The matches of \<^verbatim>\<open>/^diff --git a\/(.+?) b\/(.+)$/gm\<close>: the dot matches no line
  terminator and both anchors are at line ends, so a match is a whole line; the line
  starts with \<open>diff --git a/\<close>, and after at least one character comes \<open> b/\<close> followed by
  at least one character.
\<close>

fun sep_then_more :: "string \<Rightarrow> bool" where
  "sep_then_more [] = False"
| "sep_then_more (c # cs) =
     ((prefix '' b/'' (c # cs) \<and> length (c # cs) > 3) \<or> sep_then_more cs)"

definition header_match :: "string \<Rightarrow> bool" where
  "header_match line =
     (prefix ''diff --git a/'' line \<and>
      (case drop 13 line of [] \<Rightarrow> False | c # cs \<Rightarrow> sep_then_more cs))"

definition nth_opt :: "'a list \<Rightarrow> nat \<Rightarrow> 'a option" where
  "nth_opt xs i = (if i < length xs then Some (xs ! i) else None)"

definition extractFilesFromDiff :: "string \<Rightarrow> string list" where
  "extractFilesFromDiff diff =
     (let matches = filter header_match (split_lines diff);
          files = map (\<lambda>line.
                    (case nth_opt (split_on CHR '' '' line) 2 of
                       None \<Rightarrow> []
                     | Some part \<Rightarrow> replace_first ''b/'' [] part)) matches
      in filter (\<lambda>f. f \<noteq> []) files)"

definition cap_stderr :: "string list \<Rightarrow> string" where
  "cap_stderr chunks =
     foldl (\<lambda>acc chunk. let s = acc @ chunk in if length s > 10000 then take 10000 s else s)
       [] chunks"

text \<open>
  \<open>applyViaStdin\<close> spawns \<open>git apply --whitespace=nowarn -\<close> in \<open>root\<close> and writes the diff
  to its standard input. The failure carries the trimmed captured error output and the
  exit code, from which the source builds its message.
\<close>

definition applyViaStdin :: "'x env \<Rightarrow> string \<Rightarrow> string \<Rightarrow> ('x, unit) io" where
  "applyViaStdin env diff root = (\<lambda>w.
     (case spawn_git env [''apply'', ''--whitespace=nowarn'', ''-''] root diff (ext w) of
        (outcome, x') \<Rightarrow>
          ((case outcome of
              SpawnErrored msg \<Rightarrow> Inl (SpawnError msg)
            | SpawnClosed code chunks \<Rightarrow>
                (if code = Some 0 then Inr ()
                 else Inl (PatchApplyFailure (str_trim (cap_stderr chunks)) code))),
           log_event (EvSpawn ''git'' [''apply'', ''--whitespace=nowarn'', ''-''] root diff)
             (w\<lparr>ext := x'\<rparr>))))"

text \<open>The loop over the extracted files: the first failing check of the first failing file.\<close>

fun check_files :: "string list option \<Rightarrow> string list \<Rightarrow> error option" where
  "check_files allowedExtensions [] = None"
| "check_files allowedExtensions (file # files) =
     (if isSensitivePath file then Some (PatchSensitivePath file)
      else if containsIgnoredSegment file then Some (PatchIgnoredPath file)
      else if (case allowedExtensions of
                 None \<Rightarrow> False
               | Some exts \<Rightarrow> \<not> list_ex (\<lambda>ext. str_endsWith file ext) exts)
           then Some (PatchNonAllowedFile file)
      else check_files allowedExtensions files)"

definition applyPatch :: "'x env \<Rightarrow> string \<Rightarrow> PatchOptions \<Rightarrow> ('x, unit) io" where
  "applyPatch env diff options =
     (let root = opt_root options;
          allowDelete = (case opt_allowDelete options of None \<Rightarrow> False | Some b \<Rightarrow> b);
          allowedExtensions = opt_allowedExtensions options;
          files = extractFilesFromDiff diff
      in if length files = 0 then io_throw NoFilesInDiff
         else
           (case check_files allowedExtensions files of
              Some e \<Rightarrow> io_throw e
            | None \<Rightarrow>
                if \<not> allowDelete \<and> str_includes diff ''deleted file mode''
                then io_throw DeleteRefused
                else applyViaStdin env diff root))"

section \<open>Reasoning backend\<close>

text \<open>
  \<open>callCodex\<close> sends the prompt and the input object in one payload, and returns the
  result when it is a string, or its \<open>finalResponse\<close> when that is a non-empty string.
\<close>

definition callCodex :: "'x env \<Rightarrow> string \<Rightarrow> fix_input \<Rightarrow> ('x, string) io" where
  "callCodex env prompt input = (\<lambda>w.
     (case thread_run env prompt input (ext w) of
        (outcome, x') \<Rightarrow>
          ((case outcome of
              RunString s \<Rightarrow> Inr s
            | RunObject None \<Rightarrow> Inl NoFinalResponse
            | RunObject (Some s) \<Rightarrow> (if s \<noteq> [] then Inr s else Inl NoFinalResponse)
            | RunThrown msg \<Rightarrow> Inl (BackendError msg)),
           log_event (EvBackend prompt) (w\<lparr>ext := x'\<rparr>))))"

section \<open>Command Verification Loop\<close>

fun runAll :: "'x env \<Rightarrow> string list \<Rightarrow> string \<Rightarrow> ('x, bool) io" where
  "runAll env [] root w = (Inr True, w)"
| "runAll env (command # rest) root w =
     (case runCommand env command root w of
        (Inl e, w') \<Rightarrow> (Inl e, w')
      | (Inr result, w') \<Rightarrow>
          (if exitCode result \<noteq> 0 then (Inr False, w') else runAll env rest root w'))"

text \<open>
  What the loop does with a failed command: candidate files from the output, those that
  pass the Safety Boundary are read, the fixer prompt is loaded, the backend is asked for
  a fix, and the fix goes through the patch guard.
\<close>

definition apply_fix ::
  "'x env \<Rightarrow> string \<Rightarrow> string \<Rightarrow> Plan \<Rightarrow> string \<Rightarrow> string \<Rightarrow> CommandResult \<Rightarrow> ('x, unit) io" where
  "apply_fix env root task plan diff command result =
     (let files = extractFilePaths (stdout result @ [CHR 0x0A] @ stderr result);
          safeFiles = filter (\<lambda>file.
                        (case resolveSafePath (process_cwd env) root file of
                           Inr _ \<Rightarrow> True
                         | Inl _ \<Rightarrow> False)) files
      in io_bind (if length safeFiles > 0 then readFilesSafe env root safeFiles
                  else io_return Map.empty)
           (\<lambda>context.
              io_bind (readPrompt env ''fixer.code.txt'')
                (\<lambda>fixerPrompt.
                   io_bind (callCodex env fixerPrompt
                              \<lparr>in_task = task, in_plan = plan, in_diff = diff,
                               in_command = command, in_output = stdout result,
                               in_errors = stderr result, in_context = context\<rparr>)
                     (\<lambda>fixRaw.
                        applyPatch env fixRaw
                          \<lparr>opt_root = root, opt_allowDelete = None,
                           opt_allowedExtensions = None\<rparr>))))"

text \<open>
  The first pass of an attempt over the commands: it stops at the first command that
  exits non-zero, after the fix for it, and tells whether one failed.
\<close>

fun first_pass ::
  "'x env \<Rightarrow> string \<Rightarrow> string \<Rightarrow> Plan \<Rightarrow> string \<Rightarrow> string list \<Rightarrow> ('x, bool) io" where
  "first_pass env root task plan diff [] w = (Inr False, w)"
| "first_pass env root task plan diff (command # rest) w =
     (case runCommand env command root w of
        (Inl e, w') \<Rightarrow> (Inl e, w')
      | (Inr result, w') \<Rightarrow>
          (if exitCode result \<noteq> 0 then
             (case apply_fix env root task plan diff command result w' of
                (Inl e, w'') \<Rightarrow> (Inl e, w'')
              | (Inr u, w'') \<Rightarrow> (Inr True, w''))
           else first_pass env root task plan diff rest w'))"

text \<open>
  The \<open>while (attempt < 3)\<close> loop. The result is paired with the value of \<open>attempt\<close> when
  the loop is left.
\<close>

function verify_loop ::
  "'x env \<Rightarrow> string \<Rightarrow> string \<Rightarrow> Plan \<Rightarrow> string \<Rightarrow> string list \<Rightarrow> nat \<Rightarrow> 'x world
     \<Rightarrow> ((error + unit) \<times> nat) \<times> 'x world" where
  "verify_loop env root task plan diff cmds attempt w =
     (if attempt < 3 then
        (case first_pass env root task plan diff cmds w of
           (Inl e, w1) \<Rightarrow> ((Inl e, attempt + 1), w1)
         | (Inr failed, w1) \<Rightarrow>
             (if \<not> failed then ((Inr (), attempt + 1), w1)
              else
                (case runAll env cmds root w1 of
                   (Inl e, w2) \<Rightarrow> ((Inl e, attempt + 1), w2)
                 | (Inr rerunSucceeded, w2) \<Rightarrow>
                     (if rerunSucceeded then ((Inr (), attempt + 1), w2)
                      else verify_loop env root task plan diff cmds (attempt + 1) w2))))
      else ((Inl VerificationFailed, attempt), w))"
  by pat_completeness auto
termination
  by (relation "measure (\<lambda>(env, root, task, plan, diff, cmds, attempt, w). 3 - attempt)") auto

definition verifyCommands ::
  "'x env \<Rightarrow> string \<Rightarrow> string \<Rightarrow> Plan \<Rightarrow> string \<Rightarrow> ('x, unit) io" where
  "verifyCommands env root task plan diff =
     (let cmds = (case commands plan of None \<Rightarrow> [] | Some cs \<Rightarrow> cs)
      in if length cmds = 0 then io_return ()
         else (\<lambda>w. case verify_loop env root task plan diff cmds 0 w of
                     ((r, attempt), w') \<Rightarrow> (r, w')))"

section \<open>Classification schema\<close>

definition TASK_TYPES :: "string list" where
  "TASK_TYPES =
     [''code.change'', ''code.analysis'', ''docs.write'', ''docs.analysis'', ''research'',
      ''misc.text'']"

record Classification =
  taskType :: string
  confidence :: jsnumber
  cnotes :: string

definition js_typeof :: "jsval \<Rightarrow> string" where
  "js_typeof v =
     (case v of
        JUndefined \<Rightarrow> ''undefined''
      | JNull \<Rightarrow> ''object''
      | JBool _ \<Rightarrow> ''boolean''
      | JNumber _ \<Rightarrow> ''number''
      | JString _ \<Rightarrow> ''string''
      | JArray _ \<Rightarrow> ''object''
      | JObject _ \<Rightarrow> ''object'')"

text \<open>
  Reading a property by name: the value of the own property of an object, and
  \<open>undefined\<close> otherwise. The names read below are not array indices or \<open>length\<close>, and
  are not inherited from a prototype.
\<close>

definition get_prop :: "jsval \<Rightarrow> string \<Rightarrow> jsval" where
  "get_prop v key =
     (case v of
        JObject props \<Rightarrow> (case map_of props key of None \<Rightarrow> JUndefined | Some x \<Rightarrow> x)
      | _ \<Rightarrow> JUndefined)"

text \<open>
  A value read at the type its \<open>typeof\<close> test has established; the other branches are
  never reached after the test.
\<close>

definition as_string :: "jsval \<Rightarrow> string" where
  "as_string v = (case v of JString s \<Rightarrow> s | _ \<Rightarrow> [])"

definition as_number :: "jsval \<Rightarrow> jsnumber" where
  "as_number v = (case v of JNumber n \<Rightarrow> n | _ \<Rightarrow> NaN)"

definition isTaskType :: "jsval \<Rightarrow> bool" where
  "isTaskType v = (js_typeof v = ''string'' \<and> as_string v \<in> set TASK_TYPES)"

definition validateClassification :: "jsval \<Rightarrow> error + Classification" where
  "validateClassification v =
     (if js_typeof v \<noteq> ''object'' \<or> v = JNull
      then Inl (ValidationError ''Classification must be an object.'')
      else if \<not> isTaskType (get_prop v ''taskType'')
      then Inl (ValidationError ''Classification.taskType is invalid.'')
      else if js_typeof (get_prop v ''confidence'') \<noteq> ''number''
      then Inl (ValidationError ''Classification.confidence must be a number.'')
      else if js_typeof (get_prop v ''notes'') \<noteq> ''string''
      then Inl (ValidationError ''Classification.notes must be a string.'')
      else Inr \<lparr>taskType = as_string (get_prop v ''taskType''),
                confidence = as_number (get_prop v ''confidence''),
                cnotes = as_string (get_prop v ''notes'')\<rparr>)"

section \<open>Session persistence\<close>

definition is_id_char :: "char \<Rightarrow> bool" where
  "is_id_char c =
     (c \<in> set ''abcdefghijklmnopqrstuvwxyzABCDEFGHIJKLMNOPQRSTUVWXYZ0123456789_-'')"

definition safeId :: "string \<Rightarrow> string" where
  "safeId sessionId = map (\<lambda>c. if is_id_char c then c else CHR ''_'') sessionId"

definition getSessionPath :: "string \<Rightarrow> string \<Rightarrow> string" where
  "getSessionPath root sessionId = path_join [root, ''.codex-roles'', safeId sessionId @ ''.json'']"

definition fresh_session :: "'x env \<Rightarrow> string \<Rightarrow> ('x, jsval) io" where
  "fresh_session env sessionId = (\<lambda>w.
     (case clock_now env (ext w) of
        (now, x') \<Rightarrow>
          (Inr (JObject [(''id'', JString sessionId), (''createdAt'', JString now),
                         (''updatedAt'', JString now), (''summary'', JString []),
                         (''history'', JArray [])]),
           log_event EvClock (w\<lparr>ext := x'\<rparr>))))"

text \<open>
  \<open>loadSession\<close>: whatever \<open>JSON.parse\<close> gives is returned under the type of a session
  record; a failed read or parse gives a fresh record.
\<close>

definition loadSession :: "'x env \<Rightarrow> string \<Rightarrow> string \<Rightarrow> ('x, jsval) io" where
  "loadSession env root sessionId = (\<lambda>w.
     (case readFile env (getSessionPath root sessionId) w of
        (Inl e, w') \<Rightarrow> fresh_session env sessionId w'
      | (Inr raw, w') \<Rightarrow>
          (case json_parse env raw of
             None \<Rightarrow> fresh_session env sessionId w'
           | Some v \<Rightarrow> (Inr v, w'))))"

section \<open>Notions of the specification and example inputs\<close>

text \<open>
  A quiet environment: no file reads, every command exits zero, \<open>git apply\<close> succeeds,
  the backend answers with the empty string and nothing parses as JSON. The examples
  below change one oracle at a time.
\<close>

definition quiet_env :: "unit env" where
  "quiet_env =
     \<lparr>process_cwd = ''/work'', module_dir = ''/app/dist'',
      fs_readFile = (\<lambda>p x. None), fs_readdir = (\<lambda>p x. None),
      exec_shell = (\<lambda>c d x. (ExecOk [] [], x)),
      spawn_git = (\<lambda>args d input x. (SpawnClosed (Some 0) [], x)),
      thread_run = (\<lambda>p i x. (RunString [], x)),
      clock_now = (\<lambda>x. (''2026-01-01T00:00:00.000Z'', x)),
      json_parse = (\<lambda>s. None)\<rparr>"

definition start_world :: "unit world" where
  "start_world = \<lparr>trace = [], ext = ()\<rparr>"

definition good_classification :: jsval where
  "good_classification =
     JObject [(''taskType'', JString ''docs.write''), (''confidence'', JNumber (Finite 7 (-3))),
              (''notes'', JString ''typo'')]"

definition unknown_classification :: jsval where
  "unknown_classification =
     JObject [(''taskType'', JString ''code.refactor''), (''confidence'', JNumber (Finite 1 0)),
              (''notes'', JString [])]"

text \<open>
  The structural checks of the patch guard, in the words of the specification: the
  extracted file list is not empty; no file is sensitive, has an ignored segment, or
  misses the extension allowlist when there is one; and the diff has no deletion marker
  unless deletion is allowed.
\<close>

definition structural_checks_pass :: "string \<Rightarrow> PatchOptions \<Rightarrow> bool" where
  "structural_checks_pass diff options =
     (extractFilesFromDiff diff \<noteq> []
      \<and> (\<forall>file \<in> set (extractFilesFromDiff diff).
            \<not> isSensitivePath file
            \<and> \<not> containsIgnoredSegment file
            \<and> (case opt_allowedExtensions options of
                  None \<Rightarrow> True
                | Some exts \<Rightarrow> \<exists>ext \<in> set exts. str_endsWith file ext))
      \<and> (opt_allowDelete options = Some True \<or> \<not> str_includes diff ''deleted file mode''))"

text \<open>The trace entry of the \<open>git apply\<close> child process.\<close>

definition git_spawn :: "string \<Rightarrow> string \<Rightarrow> event" where
  "git_spawn root diff = EvSpawn ''git'' [''apply'', ''--whitespace=nowarn'', ''-''] root diff"

definition deleting_diff :: string where
  "deleting_diff = ''diff --git a/old.txt b/old.txt'' @ [CHR 0x0A] @ ''deleted file mode 100644''"

text \<open>An environment with two session files: one holds the number 42, one is not JSON.\<close>

definition session_env :: "unit env" where
  "session_env = quiet_env
     \<lparr>fs_readFile := (\<lambda>p x. if p = ''/repo/.codex-roles/n.json'' then Some ''42''
                             else if p = ''/repo/.codex-roles/bad.json'' then Some ''{oops''
                             else None),
      json_parse := (\<lambda>s. if s = ''42'' then Some (JNumber (Finite 42 0)) else None)\<rparr>"

text \<open>
  The text behind a requested path: what \<open>fs.readFile\<close> gives for the resolved path, when
  the request passes the Safety Boundary and the file can be read.
\<close>

definition safe_content :: "'x env \<Rightarrow> string \<Rightarrow> 'x \<Rightarrow> string \<Rightarrow> string option" where
  "safe_content env root x file =
     (case resolveSafePath (process_cwd env) root file of
        Inl e \<Rightarrow> None
      | Inr resolved \<Rightarrow> fs_readFile env resolved x)"

text \<open>The entry of a returned mapping under a key; none when the call threw.\<close>

definition result_at :: "error + (string \<rightharpoonup> string) \<Rightarrow> string \<Rightarrow> string option" where
  "result_at r key = (case r of Inl e \<Rightarrow> None | Inr m \<Rightarrow> m key)"

text \<open>What \<open>readFileCapped\<close> keeps of a text under the limit of \<open>readFilesSafe\<close>.\<close>

definition cap :: "string \<Rightarrow> string" where
  "cap text = (if length text \<le> 60000 then text else take 60000 text)"

text \<open>
  Two files: 30,000 times the letter U+00E9 and one \<open>A\<close>, which is 60,001 bytes of UTF-8
  and 30,001 code units; and 60,001 times the letter \<open>a\<close>.
\<close>

definition accented_text :: string where
  "accented_text = replicate 30000 (CHR 0xE9) @ ''A''"

definition long_text :: string where
  "long_text = replicate 60001 CHR ''a''"

definition utf8_env :: "unit env" where
  "utf8_env = quiet_env
     \<lparr>fs_readFile := (\<lambda>p x. if p = ''/repo/notes.txt'' then Some accented_text
                             else if p = ''/repo/big.txt'' then Some long_text
                             else if p = ''/repo/__proto__'' then Some long_text
                             else None)\<rparr>"

text \<open>The directory reached from \<open>root\<close> by joining a list of names onto it, one by one.\<close>

definition descend :: "string \<Rightarrow> string list \<Rightarrow> string" where
  "descend root names = foldl (\<lambda>current name. path_join [current, name]) root names"

text \<open>
  A chain of directory entries: each name is the name of a directory entry listed in the
  directory reached so far, and does not match the ignore set when both are put in lower
  case.
\<close>

fun dir_chain :: "'x env \<Rightarrow> 'x \<Rightarrow> string \<Rightarrow> string list \<Rightarrow> bool" where
  "dir_chain env x dir [] = True"
| "dir_chain env x dir (name # names) =
     ((case fs_readdir env dir x of
         None \<Rightarrow> False
       | Some entries \<Rightarrow> Dirent name IsDirectory \<in> set entries)
      \<and> toLowerCase name \<notin> set (map toLowerCase DEFAULT_IGNORES)
      \<and> dir_chain env x (path_join [dir, name]) names)"

text \<open>
  The trace of the second world extends that of the first by directory reads only, each
  of a directory reached from \<open>root\<close> through a chain of at most \<open>depth\<close> directory entries.
\<close>

definition reads_chain :: "'x env \<Rightarrow> 'x \<Rightarrow> string \<Rightarrow> nat \<Rightarrow> 'x world \<Rightarrow> 'x world \<Rightarrow> bool" where
  "reads_chain env x root depth w w' =
     (\<exists>evs. trace w' = trace w @ evs
        \<and> (\<forall>ev \<in> set evs. \<exists>names. ev = EvReaddir (descend root names)
              \<and> length names \<le> depth \<and> dir_chain env x root names))"

text \<open>
  The listing of the specification, as a list of lines. A directory gives its own line,
  the path relative to the root followed by \<open>/\<close>, indented by two spaces for each level,
  and then its entries in directory order: a regular file gives its name, indented one
  level more; a directory that is not ignored gives its own listing, as long as levels
  remain; anything else gives nothing. The listing is \<open>None\<close> when one of the directories
  it has to read is unreadable. The first argument counts the levels that remain.
\<close>

fun entry_lines ::
  "(string \<Rightarrow> string list option) \<Rightarrow> nat \<Rightarrow> string \<Rightarrow> dirent list \<Rightarrow> string list option" where
  "entry_lines below level dir [] = Some []"
| "entry_lines below level dir (e # es) =
     (case d_kind e of
        IsDirectory \<Rightarrow>
          (if toLowerCase (d_name e) \<in> set (map toLowerCase DEFAULT_IGNORES)
           then entry_lines below level dir es
           else (case below (path_join [dir, d_name e]) of
                   None \<Rightarrow> None
                 | Some sub \<Rightarrow> map_option (\<lambda>rest. sub @ rest) (entry_lines below level dir es)))
      | IsFile \<Rightarrow>
          map_option (\<lambda>rest. (concat (replicate (Suc level) ''  '') @ d_name e) # rest)
            (entry_lines below level dir es)
      | IsOther \<Rightarrow> entry_lines below level dir es)"

primrec listing :: "nat \<Rightarrow> 'x env \<Rightarrow> 'x \<Rightarrow> string \<Rightarrow> nat \<Rightarrow> string \<Rightarrow> string list option" where
  "listing 0 env x root level dir = Some []"
| "listing (Suc n) env x root level dir =
     (case fs_readdir env dir x of
        None \<Rightarrow> None
      | Some entries \<Rightarrow>
          map_option
            (\<lambda>body. (concat (replicate level ''  '')
                      @ (if path_relative (process_cwd env) root dir = [] then ''.''
                         else path_relative (process_cwd env) root dir)
                      @ ''/'') # body)
            (entry_lines (listing n env x root (Suc level)) level dir entries))"

text \<open>A small repository: a file, an ignored directory, a source directory and a link.\<close>

definition tree_env :: "unit env" where
  "tree_env = quiet_env
     \<lparr>fs_readdir := (\<lambda>p x.
        if p = ''/repo'' then
          Some [Dirent ''README.md'' IsFile, Dirent ''node_modules'' IsDirectory,
                Dirent ''src'' IsDirectory, Dirent ''link'' IsOther]
        else if p = ''/repo/src'' then Some [Dirent ''main.ts'' IsFile]
        else if p = ''/repo/node_modules'' then Some [Dirent ''pkg.js'' IsFile]
        else None)\<rparr>"

text \<open>
  A repository with an ignored directory spelt in mixed case, and a directory below
  \<open>src\<close> that cannot be read.
\<close>

definition mixed_env :: "unit env" where
  "mixed_env = quiet_env
     \<lparr>fs_readdir := (\<lambda>p x.
        if p = ''/repo'' then
          Some [Dirent ''README.md'' IsFile, Dirent ''Node_Modules'' IsDirectory,
                Dirent ''src'' IsDirectory, Dirent ''link'' IsOther]
        else if p = ''/repo/src'' then
          Some [Dirent ''main.ts'' IsFile, Dirent ''lib'' IsDirectory]
        else if p = ''/repo/Node_Modules'' then Some [Dirent ''pkg.js'' IsFile]
        else None)\<rparr>"

text \<open>Counting the backend calls and the command executions on a trace.\<close>

definition is_backend :: "event \<Rightarrow> bool" where
  "is_backend ev = (case ev of EvBackend _ \<Rightarrow> True | _ \<Rightarrow> False)"

definition is_exec :: "event \<Rightarrow> bool" where
  "is_exec ev = (case ev of EvExec _ _ \<Rightarrow> True | _ \<Rightarrow> False)"

definition count_backend :: "'x world \<Rightarrow> nat" where
  "count_backend w = length (filter is_backend (trace w))"

definition count_exec :: "'x world \<Rightarrow> nat" where
  "count_exec w = length (filter is_exec (trace w))"

definition counts :: "'x world \<Rightarrow> nat \<times> nat" where
  "counts w = (count_backend w, count_exec w)"

text \<open>
  Two environments in which every command exits with code 1 and the fixer prompt can be
  read. In the first the backend answers with prose, in the second with a diff that the
  patch guard accepts and \<open>git apply\<close> applies.
\<close>

definition test_plan :: Plan where
  "test_plan =
     \<lparr>goal = ''make the tests pass'', steps = [], read = None, search = None, edit = None,
      commands = Some [''npm test''], acceptance = []\<rparr>"

definition failing_env :: "unit env" where
  "failing_env = quiet_env
     \<lparr>fs_readFile := (\<lambda>p x. if p = ''/app/dist/prompts/fixer.code.txt''
                             then Some ''Fix the failure.'' else None),
      exec_shell := (\<lambda>c d x. (ExecFailed (Some []) (Some ''1 test failed'') (Some 1), x)),
      thread_run := (\<lambda>p i x. (RunString ''I could not find a fix.'', x))\<rparr>"

definition fixing_env :: "unit env" where
  "fixing_env = failing_env
     \<lparr>thread_run := (\<lambda>p i x. (RunString ''diff --git a/src/x.ts b/src/x.ts'', x))\<rparr>"


section \<open>Properties of the string and path functions\<close>

lemma split_on_not_Nil: "split_on c s \<noteq> []"
  by (induction s) (auto split: list.splits)

lemma split_on_absent: "c \<notin> set s \<Longrightarrow> split_on c s = [s]"
  by (induction s) auto

lemma split_on_snoc_segment:
  "c \<notin> set seg \<Longrightarrow> split_on c (p @ c # seg) = split_on c p @ [seg]"
proof (induction p)
  case Nil
  then show ?case by (simp add: split_on_absent)
next
  case (Cons x p)
  then show ?case
    by (cases "split_on c p") (auto simp: split_on_not_Nil)
qed

lemma norm_step_plain:
  "seg \<noteq> [] \<Longrightarrow> seg \<noteq> ''.'' \<Longrightarrow> seg \<noteq> ''..'' \<Longrightarrow> norm_step a st seg = st @ [seg]"
  by (simp add: norm_step_def)

lemma join_with_snoc:
  "join_with sep (xs @ [y]) = (if xs = [] then y else join_with sep xs @ sep @ y)"
  by (induction sep xs rule: join_with.induct) auto

section \<open>Safety Boundary: containment\<close>

text \<open>
  C1. The claim is that a path returned by \<open>resolveSafePath\<close> always has \<open>root\<close> on its
  ancestor chain. The containment test is a string prefix test, so a sibling directory
  whose name extends the name of \<open>root\<close> passes it: with root \<open>/repo\<close>, the input
  \<open>../repo-evil/notes.txt\<close> resolves to \<open>/repo-evil/notes.txt\<close>, which is returned although
  \<open>/repo\<close> is not one of its ancestors.
\<close>

theorem resolveSafePath_sibling_prefix:
  "resolveSafePath ''/home/user'' ''/repo'' ''../repo-evil/notes.txt''
     = Inr ''/repo-evil/notes.txt''
   \<and> \<not> inside_root ''/repo'' ''/repo-evil/notes.txt''"
  by code_simp

section \<open>Classification is validated against the closed set\<close>

text \<open>
  C7. \<open>validateClassification\<close> returns a classification only for a value whose
  \<open>taskType\<close> is one of the six task types, and then the three fields are the value's own;
  a value whose \<open>taskType\<close> is not one of the six, or whose \<open>confidence\<close> is not a number,
  or whose \<open>notes\<close> is not a string, gives a validation error and no default.
\<close>

theorem validateClassification_closed_set:
  "(validateClassification v = Inr c \<longrightarrow>
      taskType c \<in> {''code.change'', ''code.analysis'', ''docs.write'', ''docs.analysis'',
                     ''research'', ''misc.text''}
      \<and> get_prop v ''taskType'' = JString (taskType c)
      \<and> get_prop v ''confidence'' = JNumber (confidence c)
      \<and> get_prop v ''notes'' = JString (cnotes c))
   \<and> (get_prop v ''taskType'' \<notin> JString ` {''code.change'', ''code.analysis'', ''docs.write'',
                                          ''docs.analysis'', ''research'', ''misc.text''}
        \<or> js_typeof (get_prop v ''confidence'') \<noteq> ''number''
        \<or> js_typeof (get_prop v ''notes'') \<noteq> ''string''
      \<longrightarrow> (\<exists>msg. validateClassification v = Inl (ValidationError msg)))"
  by (auto simp: validateClassification_def isTaskType_def TASK_TYPES_def js_typeof_def
           as_string_def as_number_def
           split: jsval.splits if_splits)

theorem validateClassification_closed_set_witness:
  "validateClassification good_classification
     = Inr \<lparr>taskType = ''docs.write'', confidence = Finite 7 (-3), cnotes = ''typo''\<rparr>
   \<and> get_prop unknown_classification ''taskType'' = JString ''code.refactor''
   \<and> (\<exists>msg. validateClassification unknown_classification = Inl (ValidationError msg))"
proof -
  have g: "validateClassification good_classification
     = Inr \<lparr>taskType = ''docs.write'', confidence = Finite 7 (-3), cnotes = ''typo''\<rparr>"
    by (simp add: validateClassification_def good_classification_def get_prop_def
          js_typeof_def isTaskType_def TASK_TYPES_def as_string_def as_number_def)
  have u: "get_prop unknown_classification ''taskType'' = JString ''code.refactor''"
    by (simp add: unknown_classification_def get_prop_def)
  from validateClassification_closed_set
         [of good_classification
             "\<lparr>taskType = ''docs.write'', confidence = Finite 7 (-3), cnotes = ''typo''\<rparr>"]
       validateClassification_closed_set [of unknown_classification] g u
  show ?thesis by (simp add: image_iff)
qed

section \<open>Session files\<close>

lemma last_not_member: "c \<notin> set s \<Longrightarrow> s \<noteq> [] \<Longrightarrow> last s \<noteq> c"
  by (induction s) auto

lemma isAbsolute_append: "p \<noteq> [] \<Longrightarrow> isAbsolute (p @ q) = isAbsolute p"
  by (cases p) (simp_all add: isAbsolute_def)

lemma norm_segments_snoc:
  assumes "CHR ''/'' \<notin> set seg" "seg \<noteq> []" "seg \<noteq> ''.''" "seg \<noteq> ''..''"
  shows "norm_segments (p @ CHR ''/'' # seg) a = norm_segments p a @ [seg]"
  using assms by (simp add: norm_segments_def split_on_snoc_segment norm_step_plain)

lemma norm_segments_single:
  assumes "CHR ''/'' \<notin> set seg" "seg \<noteq> []" "seg \<noteq> ''.''" "seg \<noteq> ''..''"
  shows "norm_segments seg a = [seg]"
  using assms by (simp add: norm_segments_def split_on_absent norm_step_plain)

lemma path_normalize_snoc:
  assumes seg: "CHR ''/'' \<notin> set seg" "seg \<noteq> []" "seg \<noteq> ''.''" "seg \<noteq> ''..''"
    and p: "p \<noteq> []"
  shows "path_normalize (p @ CHR ''/'' # seg)
           = (if isAbsolute p then ''/'' else []) @
             join_with ''/'' (norm_segments p (\<not> isAbsolute p) @ [seg])"
proof -
  have abs: "isAbsolute (p @ CHR ''/'' # seg) = isAbsolute p"
    using p by (rule isAbsolute_append)
  have l: "last (p @ CHR ''/'' # seg) \<noteq> CHR ''/''"
    using seg(2) last_not_member [OF seg(1,2)] by simp
  have ne: "join_with ''/'' (xs @ [seg]) \<noteq> []" for xs
    using seg(2) by (simp add: join_with_snoc)
  show ?thesis
    unfolding path_normalize_def Let_def abs normalizeString_def norm_segments_snoc [OF seg]
    using l ne by simp
qed

lemma path_normalize_single:
  assumes seg: "CHR ''/'' \<notin> set seg" "seg \<noteq> []" "seg \<noteq> ''.''" "seg \<noteq> ''..''"
  shows "path_normalize seg = seg"
proof -
  have abs: "\<not> isAbsolute seg" using seg(1,2) by (cases seg) (auto simp: isAbsolute_def)
  have l: "last seg \<noteq> CHR ''/''"
    by (rule last_not_member [OF seg(1,2)])
  show ?thesis
    unfolding path_normalize_def Let_def normalizeString_def norm_segments_single [OF seg]
    using abs l seg(2) by simp
qed

text \<open>Joining two plain names onto a directory appends the second to the join of the first.\<close>

lemma path_join_two_plain:
  assumes d: "CHR ''/'' \<notin> set d" "d \<noteq> []" "d \<noteq> ''.''" "d \<noteq> ''..''"
    and f: "CHR ''/'' \<notin> set f" "f \<noteq> []" "f \<noteq> ''.''" "f \<noteq> ''..''"
  shows "path_join [root, d, f] = path_join [root, d] @ ''/'' @ f"
proof (cases "root = []")
  case True
  have nd: "\<not> isAbsolute d" using d(1,2) by (cases d) (auto simp: isAbsolute_def)
  have "path_join [root, d, f] = path_normalize (d @ CHR ''/'' # f)"
    using True d(2) f(2) by (simp add: path_join_def)
  also have "\<dots> = d @ ''/'' @ f"
    using path_normalize_snoc [OF f d(2)] nd norm_segments_single [OF d] by simp
  finally show ?thesis
    using True d(2) path_normalize_single [OF d] by (simp add: path_join_def)
next
  case False
  let ?q = "root @ CHR ''/'' # d"
  have q: "?q \<noteq> []" by simp
  have absq: "isAbsolute ?q = isAbsolute root" using False by (rule isAbsolute_append)
  have "path_join [root, d, f] = path_normalize (?q @ CHR ''/'' # f)"
    using False d(2) f(2) by (simp add: path_join_def)
  also have "\<dots> = (if isAbsolute root then ''/'' else []) @
        join_with ''/'' ((norm_segments root (\<not> isAbsolute root) @ [d]) @ [f])"
    unfolding path_normalize_snoc [OF f q] absq norm_segments_snoc [OF d] ..
  also have "\<dots> = ((if isAbsolute root then ''/'' else []) @
        join_with ''/'' (norm_segments root (\<not> isAbsolute root) @ [d])) @ ''/'' @ f"
    unfolding join_with_snoc [of _ "norm_segments root (\<not> isAbsolute root) @ [d]"] by simp
  also have "(if isAbsolute root then ''/'' else []) @
        join_with ''/'' (norm_segments root (\<not> isAbsolute root) @ [d]) = path_join [root, d]"
    using False d(2) path_normalize_snoc [OF d False] by (simp add: path_join_def)
  finally show ?thesis .
qed

lemma safeId_chars: "c \<in> set (safeId s) \<Longrightarrow> is_id_char c"
  by (auto simp: safeId_def is_id_char_def)

lemma session_file_plain:
  "CHR ''/'' \<notin> set (safeId s @ ''.json'')" "safeId s @ ''.json'' \<noteq> []"
  "safeId s @ ''.json'' \<noteq> ''.''" "safeId s @ ''.json'' \<noteq> ''..''"
proof -
  show "CHR ''/'' \<notin> set (safeId s @ ''.json'')"
    using safeId_chars [of "CHR ''/''" s] by (auto simp: is_id_char_def)
  show "safeId s @ ''.json'' \<noteq> []" by simp
  have len: "length (safeId s @ ''.json'') \<ge> 5" by simp
  show "safeId s @ ''.json'' \<noteq> ''.''"
  proof
    assume "safeId s @ ''.json'' = ''.''"
    then have "length (safeId s @ ''.json'') = length ''.''" by (simp only:)
    with len show False by simp
  qed
  show "safeId s @ ''.json'' \<noteq> ''..''"
  proof
    assume "safeId s @ ''.json'' = ''..''"
    then have "length (safeId s @ ''.json'') = length ''..''" by (simp only:)
    with len show False by simp
  qed
qed

lemma getSessionPath_shape:
  "getSessionPath root sid = path_join [root, ''.codex-roles''] @ ''/'' @ safeId sid @ ''.json''"
  unfolding getSessionPath_def
  using path_join_two_plain [OF _ _ _ _ session_file_plain,
          where d = "''.codex-roles''" and root = root and s1 = sid]
  by simp

lemma safeId_id: "list_all is_id_char s \<Longrightarrow> safeId s = s"
  by (induction s) (auto simp: safeId_def)

text \<open>
  C8, as stated: distinct session ids never map to the same file. The ids \<open>a b\<close> and
  \<open>a_b\<close> are distinct and map to the same file, since the space is replaced by an
  underscore.
\<close>

theorem getSessionPath_collision:
  "getSessionPath ''/repo'' ''a b'' = getSessionPath ''/repo'' ''a_b'' \<and> ''a b'' \<noteq> ''a_b''"
  by code_simp

text \<open>
  C8, amended. The session file is \<open><safe id>.json\<close> directly under the directory
  \<open>.codex-roles\<close> joined onto the root, where the safe id is the session id with every
  character other than a letter, a digit, \<open>_\<close> and \<open>-\<close> replaced by \<open>_\<close>. Two ids map to
  the same file exactly when their safe ids are equal, so the mapping is one to one on
  the ids made of letters, digits, \<open>_\<close> and \<open>-\<close> only.
\<close>

theorem getSessionPath_sanitized:
  "getSessionPath root sid = path_join [root, ''.codex-roles''] @ ''/'' @ safeId sid @ ''.json''
   \<and> safeId sid =
       map (\<lambda>c. if c \<in> set ''abcdefghijklmnopqrstuvwxyzABCDEFGHIJKLMNOPQRSTUVWXYZ0123456789_-''
                then c else CHR ''_'') sid
   \<and> (getSessionPath root s = getSessionPath root t \<longleftrightarrow> safeId s = safeId t)
   \<and> (list_all is_id_char s \<and> list_all is_id_char t
        \<and> getSessionPath root s = getSessionPath root t
        \<longrightarrow> s = t)"
proof -
  have eq: "(getSessionPath root s = getSessionPath root t) = (safeId s = safeId t)"
    unfolding getSessionPath_shape by simp
  have sid: "safeId sid =
       map (\<lambda>c. if c \<in> set ''abcdefghijklmnopqrstuvwxyzABCDEFGHIJKLMNOPQRSTUVWXYZ0123456789_-''
                then c else CHR ''_'') sid"
    unfolding safeId_def is_id_char_def ..
  have inj: "list_all is_id_char s \<and> list_all is_id_char t
        \<and> getSessionPath root s = getSessionPath root t
        \<longrightarrow> s = t"
    using eq safeId_id [of s] safeId_id [of t] by metis
  show ?thesis
    using eq sid inj getSessionPath_shape [of root sid] by blast
qed

theorem getSessionPath_sanitized_witness:
  "getSessionPath ''/repo'' ''run-1'' = ''/repo/.codex-roles/run-1.json''
   \<and> list_all is_id_char ''run-1'' \<and> list_all is_id_char ''run-2''
   \<and> getSessionPath ''/repo'' ''run-1'' \<noteq> getSessionPath ''/repo'' ''run-2''"
proof -
  have a: "list_all is_id_char ''run-1''" "list_all is_id_char ''run-2''"
    by (simp_all add: is_id_char_def)
  have b: "getSessionPath ''/repo'' ''run-1'' = ''/repo/.codex-roles/run-1.json''"
    by code_simp
  from getSessionPath_sanitized [of "''/repo''" "''run-1''" "''run-1''" "''run-2''"] a b
  show ?thesis by auto
qed

section \<open>Patch Application Guard: checks come before the external process\<close>

lemma check_files_None:
  "check_files exts files = None \<longleftrightarrow>
     (\<forall>file \<in> set files.
        \<not> isSensitivePath file \<and> \<not> containsIgnoredSegment file
        \<and> (case exts of None \<Rightarrow> True | Some es \<Rightarrow> \<exists>ext \<in> set es. str_endsWith file ext))"
  by (induction files) (auto simp: list_ex_iff split: option.splits)

lemma applyViaStdin_trace:
  "applyViaStdin env diff root w = (r, w') \<Longrightarrow> trace w' = trace w @ [git_spawn root diff]"
  by (auto simp: applyViaStdin_def git_spawn_def log_event_def split: prod.splits)

lemma applyPatch_rejected:
  "\<not> structural_checks_pass diff options \<Longrightarrow> \<exists>e. applyPatch env diff options w = (Inl e, w)"
  unfolding structural_checks_pass_def applyPatch_def Let_def io_throw_def
  using check_files_None [of "opt_allowedExtensions options" "extractFilesFromDiff diff"]
  by (cases "check_files (opt_allowedExtensions options) (extractFilesFromDiff diff)")
     (auto split: option.splits)

lemma applyPatch_accepted:
  "structural_checks_pass diff options \<Longrightarrow>
     applyPatch env diff options w = applyViaStdin env diff (opt_root options) w"
  unfolding structural_checks_pass_def applyPatch_def Let_def io_throw_def
  using check_files_None [of "opt_allowedExtensions options" "extractFilesFromDiff diff"]
  by (cases "check_files (opt_allowedExtensions options) (extractFilesFromDiff diff)")
     (auto split: option.splits)

text \<open>
  C2. Whatever \<open>applyPatch\<close> returns: when a structural check fails it has thrown and the
  world is the one it started in, so no process was spawned and nothing else happened;
  when all checks pass, the trace has grown by exactly the one \<open>git apply\<close> process, fed
  the diff in the target root.
\<close>

theorem applyPatch_checks_before_spawn:
  assumes "applyPatch env diff options w = (r, w')"
  shows "(\<not> structural_checks_pass diff options \<longrightarrow> (\<exists>e. r = Inl e) \<and> w' = w)
       \<and> (structural_checks_pass diff options \<longrightarrow>
            trace w' = trace w @ [git_spawn (opt_root options) diff])"
  using assms applyPatch_rejected [of diff options env w]
    applyPatch_accepted [of diff options env w]
    applyViaStdin_trace [of env diff "opt_root options" w r w']
  by auto

theorem applyPatch_checks_before_spawn_witness:
  "\<not> structural_checks_pass deleting_diff
        \<lparr>opt_root = ''/repo'', opt_allowDelete = None, opt_allowedExtensions = None\<rparr>
   \<and> applyPatch quiet_env deleting_diff
        \<lparr>opt_root = ''/repo'', opt_allowDelete = None, opt_allowedExtensions = None\<rparr> start_world
       = (Inl DeleteRefused, start_world)
   \<and> structural_checks_pass deleting_diff
        \<lparr>opt_root = ''/repo'', opt_allowDelete = Some True, opt_allowedExtensions = None\<rparr>
   \<and> trace (snd (applyPatch quiet_env deleting_diff
        \<lparr>opt_root = ''/repo'', opt_allowDelete = Some True, opt_allowedExtensions = None\<rparr>
        start_world)) = [git_spawn ''/repo'' deleting_diff]"
proof -
  let ?no = "\<lparr>opt_root = ''/repo'', opt_allowDelete = None, opt_allowedExtensions = None\<rparr>"
  let ?yes = "\<lparr>opt_root = ''/repo'', opt_allowDelete = Some True, opt_allowedExtensions = None\<rparr>"
  have a: "\<not> structural_checks_pass deleting_diff ?no" by code_simp
  have b: "applyPatch quiet_env deleting_diff ?no start_world = (Inl DeleteRefused, start_world)"
    by code_simp
  have c: "structural_checks_pass deleting_diff ?yes" by code_simp
  have d: "trace start_world = []" by (simp add: start_world_def)
  from applyPatch_checks_before_spawn [OF b] a
       applyPatch_checks_before_spawn
         [of quiet_env deleting_diff ?yes start_world
             "fst (applyPatch quiet_env deleting_diff ?yes start_world)"
             "snd (applyPatch quiet_env deleting_diff ?yes start_world)"] b c d
  show ?thesis by simp
qed

text \<open>
  C3. A diff that contains \<open>deleted file mode\<close> is rejected, with the world unchanged,
  whenever \<open>allowDelete\<close> is false or absent, whatever the per-file checks say. With
  \<open>allowDelete\<close> true, a diff whose file list is not empty and passes the per-file checks
  is handed to the external apply step, deletion marker or not.
\<close>

theorem applyPatch_deletion_policy:
  "(opt_allowDelete options \<noteq> Some True \<and> str_includes diff ''deleted file mode''
      \<longrightarrow> (\<exists>e. applyPatch env diff options w = (Inl e, w)))
   \<and> (opt_allowDelete options = Some True
        \<and> extractFilesFromDiff diff \<noteq> []
        \<and> (\<forall>file \<in> set (extractFilesFromDiff diff).
              \<not> isSensitivePath file \<and> \<not> containsIgnoredSegment file
              \<and> (case opt_allowedExtensions options of
                    None \<Rightarrow> True
                  | Some exts \<Rightarrow> \<exists>ext \<in> set exts. str_endsWith file ext))
      \<longrightarrow> applyPatch env diff options w = applyViaStdin env diff (opt_root options) w
          \<and> trace (snd (applyPatch env diff options w))
              = trace w @ [git_spawn (opt_root options) diff])"
proof -
  have rej: "opt_allowDelete options \<noteq> Some True \<and> str_includes diff ''deleted file mode''
      \<longrightarrow> (\<exists>e. applyPatch env diff options w = (Inl e, w))"
    using applyPatch_rejected [of diff options env w]
    by (simp add: structural_checks_pass_def)
  have acc: "structural_checks_pass diff options \<longrightarrow>
      applyPatch env diff options w = applyViaStdin env diff (opt_root options) w
      \<and> trace (snd (applyPatch env diff options w))
              = trace w @ [git_spawn (opt_root options) diff]"
  proof
    assume ok: "structural_checks_pass diff options"
    have t: "trace (snd (applyViaStdin env diff (opt_root options) w))
               = trace w @ [git_spawn (opt_root options) diff]"
      by (rule applyViaStdin_trace [of env diff "opt_root options" w
                 "fst (applyViaStdin env diff (opt_root options) w)"]) simp
    show "applyPatch env diff options w = applyViaStdin env diff (opt_root options) w
      \<and> trace (snd (applyPatch env diff options w))
              = trace w @ [git_spawn (opt_root options) diff]"
      using applyPatch_accepted [OF ok, of env w] t by simp
  qed
  show ?thesis using rej acc unfolding structural_checks_pass_def by blast
qed

theorem applyPatch_deletion_policy_witness:
  "str_includes deleting_diff ''deleted file mode''
   \<and> extractFilesFromDiff deleting_diff = [''a/old.txt'']
   \<and> applyPatch quiet_env deleting_diff
        \<lparr>opt_root = ''/repo'', opt_allowDelete = Some False, opt_allowedExtensions = None\<rparr>
        start_world = (Inl DeleteRefused, start_world)
   \<and> applyPatch quiet_env deleting_diff
        \<lparr>opt_root = ''/repo'', opt_allowDelete = Some True, opt_allowedExtensions = None\<rparr>
        start_world
       = (Inr (), \<lparr>trace = [git_spawn ''/repo'' deleting_diff], ext = ()\<rparr>)"
proof -
  let ?no = "\<lparr>opt_root = ''/repo'', opt_allowDelete = Some False, opt_allowedExtensions = None\<rparr>"
  let ?yes = "\<lparr>opt_root = ''/repo'', opt_allowDelete = Some True, opt_allowedExtensions = None\<rparr>"
  have a: "str_includes deleting_diff ''deleted file mode''" by code_simp
  have b: "extractFilesFromDiff deleting_diff = [''a/old.txt'']" by code_simp
  have c: "\<not> isSensitivePath ''a/old.txt''" "\<not> containsIgnoredSegment ''a/old.txt''"
    by code_simp+
  have d: "applyViaStdin quiet_env deleting_diff ''/repo'' start_world
             = (Inr (), \<lparr>trace = [git_spawn ''/repo'' deleting_diff], ext = ()\<rparr>)"
    by (simp add: applyViaStdin_def quiet_env_def start_world_def log_event_def git_spawn_def)
  have e: "applyPatch quiet_env deleting_diff ?no start_world = (Inl DeleteRefused, start_world)"
    by code_simp
  from applyPatch_deletion_policy [of ?no deleting_diff quiet_env start_world]
       applyPatch_deletion_policy [of ?yes deleting_diff quiet_env start_world] a b c d e
  show ?thesis by simp
qed

section \<open>Loading a session\<close>

text \<open>
  C10. \<open>loadSession\<close> always returns a value. When the session file cannot be read, or
  its text does not parse as JSON, the value is a fresh record: its \<open>id\<close> is the session
  id as given, \<open>createdAt\<close> and \<open>updatedAt\<close> are the same time stamp, the summary is the
  empty string and the history is the empty array. When the text parses, the parsed
  value is returned as it is, whatever its shape.
\<close>

theorem loadSession_total:
  "(\<exists>v w'. loadSession env root sessionId w = (Inr v, w'))
   \<and> (fs_readFile env (getSessionPath root sessionId) (ext w) = None
        \<or> (\<exists>raw. fs_readFile env (getSessionPath root sessionId) (ext w) = Some raw
                  \<and> json_parse env raw = None)
      \<longrightarrow> (\<exists>now w'. loadSession env root sessionId w =
             (Inr (JObject [(''id'', JString sessionId), (''createdAt'', JString now),
                            (''updatedAt'', JString now), (''summary'', JString []),
                            (''history'', JArray [])]), w')))
   \<and> (fs_readFile env (getSessionPath root sessionId) (ext w) = Some raw
        \<and> json_parse env raw = Some v
      \<longrightarrow> (\<exists>w'. loadSession env root sessionId w = (Inr v, w')))"
  by (auto simp: loadSession_def readFile_def fresh_session_def
           split: option.splits prod.splits)

theorem loadSession_total_witness:
  "fs_readFile session_env (getSessionPath ''/repo'' ''My Session!'') (ext start_world) = None
   \<and> loadSession session_env ''/repo'' ''My Session!'' start_world
       = (Inr (JObject [(''id'', JString ''My Session!''),
                        (''createdAt'', JString ''2026-01-01T00:00:00.000Z''),
                        (''updatedAt'', JString ''2026-01-01T00:00:00.000Z''),
                        (''summary'', JString []), (''history'', JArray [])]),
          \<lparr>trace = [EvReadFile ''/repo/.codex-roles/My_Session_.json'', EvClock], ext = ()\<rparr>)
   \<and> fs_readFile session_env (getSessionPath ''/repo'' ''bad'') (ext start_world) = Some ''{oops''
   \<and> json_parse session_env ''{oops'' = None
   \<and> fst (loadSession session_env ''/repo'' ''bad'' start_world)
       = Inr (JObject [(''id'', JString ''bad''),
                       (''createdAt'', JString ''2026-01-01T00:00:00.000Z''),
                       (''updatedAt'', JString ''2026-01-01T00:00:00.000Z''),
                       (''summary'', JString []), (''history'', JArray [])])
   \<and> fs_readFile session_env (getSessionPath ''/repo'' ''n'') (ext start_world) = Some ''42''
   \<and> json_parse session_env ''42'' = Some (JNumber (Finite 42 0))
   \<and> fst (loadSession session_env ''/repo'' ''n'' start_world) = Inr (JNumber (Finite 42 0))"
proof -
  have p: "getSessionPath ''/repo'' ''My Session!'' = ''/repo/.codex-roles/My_Session_.json''"
    "getSessionPath ''/repo'' ''bad'' = ''/repo/.codex-roles/bad.json''"
    "getSessionPath ''/repo'' ''n'' = ''/repo/.codex-roles/n.json''"
    by code_simp+
  have r: "fs_readFile session_env ''/repo/.codex-roles/My_Session_.json'' (ext start_world) = None"
    "fs_readFile session_env ''/repo/.codex-roles/bad.json'' (ext start_world) = Some ''{oops''"
    "fs_readFile session_env ''/repo/.codex-roles/n.json'' (ext start_world) = Some ''42''"
    "json_parse session_env ''{oops'' = None"
    "json_parse session_env ''42'' = Some (JNumber (Finite 42 0))"
    by (simp_all add: session_env_def quiet_env_def)
  have c: "clock_now session_env () = (''2026-01-01T00:00:00.000Z'', ())"
    by (simp add: session_env_def quiet_env_def)
  have l: "loadSession session_env ''/repo'' ''My Session!'' start_world
       = (Inr (JObject [(''id'', JString ''My Session!''),
                        (''createdAt'', JString ''2026-01-01T00:00:00.000Z''),
                        (''updatedAt'', JString ''2026-01-01T00:00:00.000Z''),
                        (''summary'', JString []), (''history'', JArray [])]),
          \<lparr>trace = [EvReadFile ''/repo/.codex-roles/My_Session_.json'', EvClock], ext = ()\<rparr>)"
    using r(1) c
    by (simp add: loadSession_def p readFile_def fresh_session_def start_world_def log_event_def)
  from loadSession_total [of session_env "''/repo''" "''My Session!''" start_world]
       loadSession_total [of session_env "''/repo''" "''bad''" start_world "''{oops''"]
       loadSession_total [of session_env "''/repo''" "''n''" start_world "''42''"
                             "JNumber (Finite 42 0)"]
       p r c l
  show ?thesis
    by (auto simp: loadSession_def readFile_def fresh_session_def)
qed

section \<open>Which path the patch guard checks\<close>




lemma replace_first_a: "replace_first ''b/'' [] (''a/'' @ h) = ''a/'' @ replace_first ''b/'' [] h"
  by simp








section \<open>Reading files under the cap\<close>

lemma readFileCapped_eq:
  "readFileCapped env p 60000 w =
     ((case fs_readFile env p (ext w) of
         None \<Rightarrow> Inl (ReadFileError p)
       | Some data \<Rightarrow> Inr (cap data)),
      log_event (EvReadFile p) w)"
  by (simp add: readFileCapped_def readFile_def io_bind_def io_return_def cap_def
        split: option.splits)

lemma ext_log_event [simp]: "ext (log_event ev w) = ext w"
  by (simp add: log_event_def)

lemma readFilesSafe_loop_ok:
  assumes "\<forall>file \<in> set files. safe_content env root (ext w) file \<noteq> None"
  shows "\<exists>w'. readFilesSafe_loop env root files results w =
           (Inr (foldl (\<lambda>m file. record_set m file (cap (the (safe_content env root (ext w) file))))
                   results files), w')
         \<and> ext w' = ext w"
  using assms
proof (induction files arbitrary: results w)
  case Nil
  then show ?case by simp
next
  case (Cons f fs)
  from Cons.prems obtain resolved data where
    r: "resolveSafePath (process_cwd env) root f = Inr resolved"
    and t: "fs_readFile env resolved (ext w) = Some data"
    by (auto simp: safe_content_def split: sum.splits)
  have sc: "safe_content env root (ext w) f = Some data"
    by (simp add: safe_content_def r t)
  let ?w1 = "log_event (EvReadFile resolved) w"
  have rest: "\<forall>g \<in> set fs. safe_content env root (ext ?w1) g \<noteq> None"
    using Cons.prems by simp
  from Cons.IH [OF rest, of "record_set results f (cap data)"]
  show ?case
    by (simp add: r readFileCapped_eq t sc)
qed

lemma foldl_record_set:
  "foldl (\<lambda>m file. record_set m file (g file)) results files key
     = (if key \<in> set files \<and> key \<noteq> ''__proto__'' then Some (g key) else results key)"
  by (induction files arbitrary: results) (auto simp: record_set_def)

lemma cap_60001:
  "length text = 60001 \<Longrightarrow> length (cap text) = 60000 \<and> strict_prefix (cap text) text"
proof -
  assume l: "length text = 60001"
  then have c: "cap text = take 60000 text" by (simp add: cap_def)
  have "prefix (take 60000 text) text" by (rule take_is_prefix)
  moreover have "take 60000 text \<noteq> text"
  proof
    assume "take 60000 text = text"
    then have "length (take 60000 text) = length text" by simp
    with l show False by simp
  qed
  ultimately show ?thesis using l c by (simp add: strict_prefix_def)
qed

lemma utf8_length_accented: "utf8_length accented_text = 60001"
  by (simp add: utf8_length_def accented_text_def sum_list_replicate)

lemma length_accented: "length accented_text = 30001"
  by (simp add: accented_text_def)

lemma utf8_env_cwd: "process_cwd utf8_env = ''/work''"
  by (simp add: utf8_env_def quiet_env_def)

text \<open>
  C6, as stated: a file of exactly 60,001 bytes comes back as content of length 60,000.
  The cap compares and cuts the length of the decoded text, which counts UTF-16 code
  units. The file \<open>notes.txt\<close> has 60,001 bytes, passes the Safety Boundary, and is
  returned whole, with length 30,001.
\<close>

theorem readFilesSafe_accented_file:
  "utf8_length accented_text = 60001
   \<and> safe_content utf8_env ''/repo'' (ext start_world) ''notes.txt'' = Some accented_text
   \<and> result_at (fst (readFilesSafe utf8_env ''/repo'' [''notes.txt''] start_world)) ''notes.txt''
       = Some accented_text
   \<and> length accented_text = 30001"
proof -
  have rp: "resolveSafePath ''/work'' ''/repo'' ''notes.txt'' = Inr ''/repo/notes.txt''"
    by code_simp
  have rd: "fs_readFile utf8_env ''/repo/notes.txt'' x = Some accented_text" for x
    by (simp add: utf8_env_def quiet_env_def)
  have sc: "safe_content utf8_env ''/repo'' (ext start_world) ''notes.txt'' = Some accented_text"
    by (simp add: safe_content_def utf8_env_cwd rp rd)
  have run: "result_at (fst (readFilesSafe utf8_env ''/repo'' [''notes.txt''] start_world))
               ''notes.txt'' = Some accented_text"
    by (simp add: readFilesSafe_def utf8_env_cwd rp readFileCapped_eq rd cap_def length_accented
          record_set_def result_at_def)
  show ?thesis
    by (intro conjI) (rule utf8_length_accented, rule sc, rule run, rule length_accented)
qed

text \<open>
  C6, amended. When every requested path passes the Safety Boundary and can be read,
  \<open>readFilesSafe\<close> returns a mapping. Leaving aside the one key \<open>__proto__\<close>, its keys are
  exactly the requested paths as given, not the resolved absolute paths, and the entry of
  a requested path is the decoded text of its file, cut to its first 60,000 code units
  when it is longer. For a text of exactly 60,001 code units the entry has length 60,000
  and is a strict prefix of the text.
\<close>

theorem readFilesSafe_caps_code_units:
  assumes "\<forall>file \<in> set files. safe_content env root (ext w) file \<noteq> None"
  shows "\<exists>m w'. readFilesSafe env root files w = (Inr m, w')
           \<and> (\<forall>key. key \<noteq> ''__proto__'' \<longrightarrow> (key \<in> dom m \<longleftrightarrow> key \<in> set files))
           \<and> (\<forall>file \<in> set files. file \<noteq> ''__proto__'' \<longrightarrow>
                 (\<exists>text. safe_content env root (ext w) file = Some text
                    \<and> m file = Some (if length text \<le> 60000 then text else take 60000 text)
                    \<and> (length text = 60001 \<longrightarrow>
                          (\<exists>content. m file = Some content \<and> length content = 60000
                             \<and> strict_prefix content text))))"
proof -
  let ?g = "\<lambda>file. cap (the (safe_content env root (ext w) file))"
  let ?m = "foldl (\<lambda>m file. record_set m file (?g file)) Map.empty files"
  from readFilesSafe_loop_ok [OF assms, of Map.empty]
  obtain w' where run: "readFilesSafe env root files w = (Inr ?m, w')"
    by (auto simp: readFilesSafe_def)
  have at: "?m key = (if key \<in> set files \<and> key \<noteq> ''__proto__'' then Some (?g key) else None)"
    for key
    using foldl_record_set [of ?g Map.empty files key] by simp
  have d: "\<forall>key. key \<noteq> ''__proto__'' \<longrightarrow> (key \<in> dom ?m \<longleftrightarrow> key \<in> set files)"
    by (simp add: at dom_def)
  have each: "\<exists>text. safe_content env root (ext w) f = Some text
                    \<and> ?m f = Some (if length text \<le> 60000 then text else take 60000 text)
                    \<and> (length text = 60001 \<longrightarrow>
                          (\<exists>content. ?m f = Some content \<and> length content = 60000
                             \<and> strict_prefix content text))"
    if f: "f \<in> set files" "f \<noteq> ''__proto__''" for f
  proof -
    from assms f(1) obtain data where t: "safe_content env root (ext w) f = Some data"
      by auto
    have m: "?m f = Some (cap data)" using f t by (simp add: at)
    show ?thesis
      using t m cap_60001 [of data] by (auto simp: cap_def)
  qed
  from run d each show ?thesis by blast
qed

theorem readFilesSafe_caps_code_units_witness:
  "safe_content utf8_env ''/repo'' (ext start_world) ''big.txt'' = Some long_text
   \<and> length long_text = 60001
   \<and> result_at (fst (readFilesSafe utf8_env ''/repo'' [''big.txt''] start_world)) ''big.txt''
       = Some (take 60000 long_text)
   \<and> length (take 60000 long_text) = 60000
   \<and> strict_prefix (take 60000 long_text) long_text"
proof -
  have rp: "resolveSafePath ''/work'' ''/repo'' ''big.txt'' = Inr ''/repo/big.txt''"
    by code_simp
  have rd: "fs_readFile utf8_env ''/repo/big.txt'' x = Some long_text" for x
    by (simp add: utf8_env_def quiet_env_def)
  have sc: "safe_content utf8_env ''/repo'' (ext start_world) ''big.txt'' = Some long_text"
    by (simp add: safe_content_def utf8_env_cwd rp rd)
  have len: "length long_text = 60001"
    by (simp add: long_text_def)
  have hyp: "\<forall>f \<in> set [''big.txt'']. safe_content utf8_env ''/repo'' (ext start_world) f \<noteq> None"
    using sc by simp
  from readFilesSafe_caps_code_units [OF hyp]
  obtain m w' where run: "readFilesSafe utf8_env ''/repo'' [''big.txt''] start_world = (Inr m, w')"
    and each: "\<forall>f \<in> set [''big.txt'']. f \<noteq> ''__proto__'' \<longrightarrow>
                 (\<exists>data. safe_content utf8_env ''/repo'' (ext start_world) f = Some data
                    \<and> m f = Some (if length data \<le> 60000 then data else take 60000 data)
                    \<and> (length data = 60001 \<longrightarrow>
                          (\<exists>content. m f = Some content \<and> length content = 60000
                             \<and> strict_prefix content data)))"
    by blast
  from each sc len obtain content where
    c: "m ''big.txt'' = Some (take 60000 long_text)" "m ''big.txt'' = Some content"
       "length content = 60000" "strict_prefix content long_text"
    by auto
  from c have c': "content = take 60000 long_text" by simp
  have r: "result_at (fst (readFilesSafe utf8_env ''/repo'' [''big.txt''] start_world)) ''big.txt''
       = Some (take 60000 long_text)"
    by (simp add: run result_at_def c(1))
  show ?thesis
    using c(3,4) unfolding c'
    by (intro conjI) (rule sc, rule len, rule r)
qed

text \<open>
  A defect of \<open>readFilesSafe\<close>, apart from the cap: a file requested under the name
  \<open>__proto__\<close> passes the Safety Boundary and is read, but the assignment
  \<open>results[file] = ...\<close> on a plain object stores nothing under that key, so the returned
  mapping has no entry for the file.
\<close>

lemma readFilesSafe_proto_key_lost:
  "safe_content utf8_env ''/repo'' (ext start_world) ''__proto__'' = Some long_text
   \<and> fst (readFilesSafe utf8_env ''/repo'' [''__proto__''] start_world) = Inr Map.empty"
proof -
  have rp: "resolveSafePath ''/work'' ''/repo'' ''__proto__'' = Inr ''/repo/__proto__''"
    by code_simp
  have rd: "fs_readFile utf8_env ''/repo/__proto__'' x = Some long_text" for x
    by (simp add: utf8_env_def quiet_env_def)
  have sc: "safe_content utf8_env ''/repo'' (ext start_world) ''__proto__'' = Some long_text"
    by (simp add: safe_content_def utf8_env_cwd rp rd)
  have run: "fst (readFilesSafe utf8_env ''/repo'' [''__proto__''] start_world) = Inr Map.empty"
    by (simp add: readFilesSafe_def utf8_env_cwd rp readFileCapped_eq rd record_set_def)
  show ?thesis
    by (intro conjI) (rule sc, rule run)
qed

section \<open>The repository map\<close>

lemma shouldIgnore_iff: "shouldIgnore n \<longleftrightarrow> toLowerCase n \<in> toLowerCase ` set DEFAULT_IGNORES"
  unfolding shouldIgnore_def list_ex_iff image_iff by metis

lemma ignored_iff: "shouldIgnore n \<longleftrightarrow> toLowerCase n \<in> set (map toLowerCase DEFAULT_IGNORES)"
  using shouldIgnore_iff [of n] by simp

lemma descend_snoc: "descend root (names @ [n]) = path_join [descend root names, n]"
  by (simp add: descend_def)

lemma dir_chain_snoc:
  "dir_chain env x dir (names @ [n]) \<longleftrightarrow>
     dir_chain env x dir names
     \<and> (case fs_readdir env (descend dir names) x of
          None \<Rightarrow> False
        | Some entries \<Rightarrow> Dirent n IsDirectory \<in> set entries)
     \<and> toLowerCase n \<notin> set (map toLowerCase DEFAULT_IGNORES)"
proof (induction names arbitrary: dir)
  case Nil
  then show ?case by (simp add: descend_def)
next
  case (Cons a names)
  have d: "descend dir (a # names) = descend (path_join [dir, a]) names"
    by (simp add: descend_def)
  show ?case
    unfolding d using Cons.IH [of "path_join [dir, a]"] by auto
qed

lemma reads_chain_refl: "reads_chain env x root depth w w"
  by (simp add: reads_chain_def)

lemma reads_chain_trans:
  "reads_chain env x root depth w w1 \<Longrightarrow> reads_chain env x root depth w1 w2 \<Longrightarrow>
     reads_chain env x root depth w w2"
  unfolding reads_chain_def
  by (elim exE conjE) (rule_tac x = "evs @ evsa" in exI, auto)

lemma reads_chain_readdir:
  assumes "length names \<le> depth" "dir_chain env x root names"
    and "readdir env (descend root names) w = (r, w')"
  shows "reads_chain env x root depth w w'"
  unfolding reads_chain_def
  using assms
  by (intro exI [of _ "[EvReaddir (descend root names)]"])
     (auto simp: readdir_def log_event_def)

lemma ext_readdir: "readdir env p w = (r, w') \<Longrightarrow> ext w' = ext w"
  by (auto simp: readdir_def)

lemma readdir_Inr: "readdir env p w = (Inr entries, w') \<Longrightarrow> fs_readdir env p (ext w) = Some entries"
  by (auto simp: readdir_def split: option.splits)

lemma readdir_Inl: "readdir env p w = (Inl e, w') \<Longrightarrow> fs_readdir env p (ext w) = None \<and> e = ReaddirError p"
  by (auto simp: readdir_def split: option.splits)

lemma walk_reads_chain:
  "walk env root depth current cd lines w = (r, w') \<Longrightarrow>
     current = descend root names \<Longrightarrow> length names = cd \<Longrightarrow>
     dir_chain env (ext w) root names \<Longrightarrow>
     reads_chain env (ext w) root depth w w' \<and> ext w' = ext w"
  "walk_entries env root depth current cd entries lines w = (r, w') \<Longrightarrow>
     current = descend root names \<Longrightarrow> length names = cd \<Longrightarrow>
     dir_chain env (ext w) root names \<Longrightarrow>
     fs_readdir env current (ext w) = Some listed \<Longrightarrow> set entries \<subseteq> set listed \<Longrightarrow>
     reads_chain env (ext w) root depth w w' \<and> ext w' = ext w"
proof (induction env root depth current cd lines w and env root depth current cd entries lines w
       arbitrary: r w' names and r w' names listed rule: walk_walk_entries.induct)
  case (1 env root depth current currentDepth lines w)
  show ?case
  proof (cases "currentDepth > depth")
    case True
    with "1.prems"(1) show ?thesis by (simp add: reads_chain_refl)
  next
    case False
    obtain r1 w1 where rd: "readdir env current w = (r1, w1)" by (cases "readdir env current w")
    have e1: "ext w1 = ext w" by (rule ext_readdir [OF rd])
    have step: "reads_chain env (ext w) root depth w w1"
      using reads_chain_readdir [of names depth env "ext w" root w r1 w1] "1.prems" False rd
      by simp
    show ?thesis
    proof (cases r1)
      case (Inl e)
      with "1.prems"(1) False rd step e1 show ?thesis by simp
    next
      case (Inr entries)
      with "1.prems"(1) False rd
      have run: "walk_entries env root depth current currentDepth entries
              (lines @ [rel_line env root current currentDepth]) w1 = (r, w')"
        by simp
      have listed: "fs_readdir env current (ext w1) = Some entries"
        using readdir_Inr [of env current w entries w1] rd Inr e1 by simp
      have ch: "dir_chain env (ext w1) root names" using "1.prems"(4) e1 by simp
      from "1.IH" [OF False rd [symmetric] Inr run "1.prems"(2,3) ch listed subset_refl]
      have "reads_chain env (ext w) root depth w1 w' \<and> ext w' = ext w"
        by (simp add: e1)
      with step show ?thesis by (blast intro: reads_chain_trans)
    qed
  qed
next
  case (2 env root depth current currentDepth lines w)
  then show ?case by (simp add: reads_chain_refl)
next
  case (3 env root depth current currentDepth entry entries lines w)
  have sub: "set entries \<subseteq> set listed" using "3.prems"(6) by simp
  show ?case
  proof (cases "d_kind entry = IsDirectory")
    case dir: True
    show ?thesis
    proof (cases "shouldIgnore (d_name entry)")
      case True
      with dir "3.prems"(1) have
        "walk_entries env root depth current currentDepth entries lines w = (r, w')" by simp
      from "3.IH"(1) [OF dir True this "3.prems"(2,3,4,5) sub] show ?thesis .
    next
      case False
      obtain r1 w1 where wk:
        "walk env root depth (path_join [current, d_name entry]) (currentDepth + 1) lines w = (r1, w1)"
        by (cases "walk env root depth (path_join [current, d_name entry]) (currentDepth + 1) lines w")
      have nm: "path_join [current, d_name entry] = descend root (names @ [d_name entry])"
        using "3.prems"(2) by (simp add: descend_def)
      have ln: "length (names @ [d_name entry]) = currentDepth + 1"
        using "3.prems"(3) by simp
      have ent: "Dirent (d_name entry) IsDirectory \<in> set listed"
        using "3.prems"(6) dir by (cases entry) auto
      have ig: "dir_chain env (ext w) root (names @ [d_name entry])"
        using "3.prems"(2,4,5) False ent
        by (simp add: dir_chain_snoc ignored_iff)
      have step: "reads_chain env (ext w) root depth w w1 \<and> ext w1 = ext w"
        by (rule "3.IH"(2) [OF dir False wk nm ln ig])
      show ?thesis
      proof (cases r1)
        case (Inl e)
        with dir False wk "3.prems"(1) step show ?thesis by simp
      next
        case (Inr lines')
        with dir False wk "3.prems"(1) have run:
          "walk_entries env root depth current currentDepth entries lines' w1 = (r, w')" by simp
        have ch: "dir_chain env (ext w1) root names" using "3.prems"(4) step by simp
        have li: "fs_readdir env current (ext w1) = Some listed" using "3.prems"(5) step by simp
        from "3.IH"(3) [OF dir False wk [symmetric] Inr run "3.prems"(2,3) ch li sub]
        have "reads_chain env (ext w) root depth w1 w' \<and> ext w' = ext w"
          using step by simp
        with step show ?thesis by (blast intro: reads_chain_trans)
      qed
    qed
  next
    case nodir: False
    show ?thesis
    proof (cases "d_kind entry = IsFile")
      case True
      with nodir "3.prems"(1) have
        "walk_entries env root depth current currentDepth entries
           (lines @ [indent (currentDepth + 1) @ d_name entry]) w = (r, w')" by simp
      from "3.IH"(4) [OF nodir True this "3.prems"(2,3,4,5) sub] show ?thesis .
    next
      case False
      with nodir "3.prems"(1) have
        "walk_entries env root depth current currentDepth entries lines w = (r, w')" by simp
      from "3.IH"(5) [OF nodir False this "3.prems"(2,3,4,5) sub] show ?thesis .
    qed
  qed
qed

lemma walk_ext:
  "ext (snd (walk env root depth current cd lines w)) = ext w"
  "ext (snd (walk_entries env root depth current cd entries lines w)) = ext w"
proof (induction env root depth current cd lines w and env root depth current cd entries lines w
       rule: walk_walk_entries.induct)
  case (1 env root depth current currentDepth lines w)
  show ?case
  proof (cases "currentDepth > depth")
    case True
    then show ?thesis by simp
  next
    case False
    obtain r1 w1 where rd: "readdir env current w = (r1, w1)" by (cases "readdir env current w")
    have e1: "ext w1 = ext w" by (rule ext_readdir [OF rd])
    show ?thesis
    proof (cases r1)
      case (Inl e)
      with False rd e1 show ?thesis by simp
    next
      case (Inr entries)
      from "1.IH" [OF False rd [symmetric] Inr] False rd Inr e1 show ?thesis by simp
    qed
  qed
next
  case (2 env root depth current currentDepth lines w)
  show ?case by simp
next
  case (3 env root depth current currentDepth entry entries lines w)
  show ?case
  proof (cases "d_kind entry = IsDirectory")
    case dir: True
    show ?thesis
    proof (cases "shouldIgnore (d_name entry)")
      case True
      from "3.IH"(1) [OF dir True] dir True show ?thesis by simp
    next
      case False
      obtain r1 w1 where wk:
        "walk env root depth (path_join [current, d_name entry]) (currentDepth + 1) lines w = (r1, w1)"
        by (cases "walk env root depth (path_join [current, d_name entry]) (currentDepth + 1) lines w")
      have e1: "ext w1 = ext w" using "3.IH"(2) [OF dir False] wk by simp
      show ?thesis
      proof (cases r1)
        case (Inl e)
        with dir False wk e1 show ?thesis by simp
      next
        case (Inr lines')
        from "3.IH"(3) [OF dir False wk [symmetric] Inr] dir False wk Inr e1
        show ?thesis by simp
      qed
    qed
  next
    case nodir: False
    show ?thesis
    proof (cases "d_kind entry = IsFile")
      case True
      from "3.IH"(4) [OF nodir True] nodir True show ?thesis by simp
    next
      case False
      from "3.IH"(5) [OF nodir False] nodir False show ?thesis by simp
    qed
  qed
qed

lemma walk_listing:
  "ext w = x \<Longrightarrow>
     (case listing (Suc depth - cd) env x root cd current of
        Some ls \<Rightarrow> fst (walk env root depth current cd lines w) = Inr (lines @ ls)
      | None \<Rightarrow> (\<exists>p. fst (walk env root depth current cd lines w) = Inl (ReaddirError p)))"
  "ext w = x \<Longrightarrow>
     (case entry_lines (listing (depth - cd) env x root (Suc cd)) cd current entries of
        Some ls \<Rightarrow> fst (walk_entries env root depth current cd entries lines w) = Inr (lines @ ls)
      | None \<Rightarrow>
          (\<exists>p. fst (walk_entries env root depth current cd entries lines w) = Inl (ReaddirError p)))"
proof (induction env root depth current cd lines w and env root depth current cd entries lines w
       rule: walk_walk_entries.induct)
  case (1 env root depth current currentDepth lines w)
  show ?case
  proof (cases "currentDepth > depth")
    case True
    then have "Suc depth - currentDepth = 0" by simp
    with True show ?thesis by simp
  next
    case False
    then have n: "Suc depth - currentDepth = Suc (depth - currentDepth)" by simp
    obtain r1 w1 where rd: "readdir env current w = (r1, w1)" by (cases "readdir env current w")
    have e1: "ext w1 = x" using ext_readdir [OF rd] "1.prems" by simp
    show ?thesis
    proof (cases r1)
      case (Inl e)
      from readdir_Inl [of env current w e w1] rd Inl "1.prems"
      have "fs_readdir env current x = None" "e = ReaddirError current" by simp_all
      with False rd Inl show ?thesis unfolding n by simp
    next
      case (Inr entries)
      from readdir_Inr [of env current w entries w1] rd Inr "1.prems"
      have f: "fs_readdir env current x = Some entries" by simp
      have w: "walk env root depth current currentDepth lines w
                 = walk_entries env root depth current currentDepth entries
                     (lines @ [rel_line env root current currentDepth]) w1"
        using False rd Inr by simp
      note ih = "1.IH" [OF False rd [symmetric] Inr e1]
      show ?thesis
      proof (cases "entry_lines (listing (depth - currentDepth) env x root (Suc currentDepth))
                      currentDepth current entries")
        case None
        with ih f show ?thesis unfolding n w by simp
      next
        case (Some body)
        with ih f show ?thesis unfolding n w
          by (simp add: rel_line_def indent_def Let_def)
      qed
    qed
  qed
next
  case (2 env root depth current currentDepth lines w)
  show ?case by simp
next
  case (3 env root depth current currentDepth entry entries lines w)
  let ?below = "listing (depth - currentDepth) env x root (Suc currentDepth)"
  let ?sub = "path_join [current, d_name entry]"
  show ?case
  proof (cases "d_kind entry = IsDirectory")
    case dir: True
    show ?thesis
    proof (cases "shouldIgnore (d_name entry)")
      case True
      have w: "walk_entries env root depth current currentDepth (entry # entries) lines w
                 = walk_entries env root depth current currentDepth entries lines w"
        using dir True by simp
      have el: "entry_lines ?below currentDepth current (entry # entries)
                  = entry_lines ?below currentDepth current entries"
        using dir True by (simp add: shouldIgnore_iff)
      from "3.IH"(1) [OF dir True "3.prems"] show ?thesis unfolding w el .
    next
      case False
      obtain r1 w1 where wk:
        "walk env root depth ?sub (currentDepth + 1) lines w = (r1, w1)"
        by (cases "walk env root depth ?sub (currentDepth + 1) lines w")
      have e1: "ext w1 = x"
        using walk_ext(1) [of env root depth ?sub "currentDepth + 1" lines w] "3.prems"
        unfolding wk by simp
      have ih2: "(case ?below ?sub of
                    Some ls \<Rightarrow> r1 = Inr (lines @ ls)
                  | None \<Rightarrow> (\<exists>p. r1 = Inl (ReaddirError p)))"
        using "3.IH"(2) [OF dir False "3.prems"] unfolding wk by (simp split: option.splits)
      show ?thesis
      proof (cases "?below ?sub")
        case None
        with ih2 obtain p where r1: "r1 = Inl (ReaddirError p)" by auto
        have w: "walk_entries env root depth current currentDepth (entry # entries) lines w
                   = (Inl (ReaddirError p), w1)"
          using dir False wk r1 by simp
        have el: "entry_lines ?below currentDepth current (entry # entries) = None"
          using dir False None by (simp add: shouldIgnore_iff)
        show ?thesis unfolding w el by simp
      next
        case (Some sub)
        with ih2 have r1: "r1 = Inr (lines @ sub)" by simp
        note ih3 = "3.IH"(3) [OF dir False wk [symmetric] r1 e1]
        have w: "walk_entries env root depth current currentDepth (entry # entries) lines w
                   = walk_entries env root depth current currentDepth entries (lines @ sub) w1"
          using dir False wk r1 by simp
        have el: "entry_lines ?below currentDepth current (entry # entries)
                    = map_option (\<lambda>rest. sub @ rest)
                        (entry_lines ?below currentDepth current entries)"
          using dir False Some by (simp add: shouldIgnore_iff)
        show ?thesis
        proof (cases "entry_lines ?below currentDepth current entries")
          case None
          with ih3 show ?thesis unfolding w el by simp
        next
          case (Some rest)
          with ih3 show ?thesis unfolding w el by simp
        qed
      qed
    qed
  next
    case nodir: False
    show ?thesis
    proof (cases "d_kind entry = IsFile")
      case True
      note ih4 = "3.IH"(4) [OF nodir True "3.prems"]
      have w: "walk_entries env root depth current currentDepth (entry # entries) lines w
                 = walk_entries env root depth current currentDepth entries
                     (lines @ [indent (currentDepth + 1) @ d_name entry]) w"
        using nodir True by simp
      have el: "entry_lines ?below currentDepth current (entry # entries)
                  = map_option (\<lambda>rest. (concat (replicate (Suc currentDepth) ''  '') @ d_name entry) # rest)
                      (entry_lines ?below currentDepth current entries)"
        using True by simp
      show ?thesis
      proof (cases "entry_lines ?below currentDepth current entries")
        case None
        with ih4 show ?thesis unfolding w el by simp
      next
        case (Some rest)
        with ih4 show ?thesis unfolding w el by (simp add: indent_def)
      qed
    next
      case False
      with nodir have k: "d_kind entry = IsOther" by (cases "d_kind entry") auto
      have w: "walk_entries env root depth current currentDepth (entry # entries) lines w
                 = walk_entries env root depth current currentDepth entries lines w"
        using nodir False by simp
      have el: "entry_lines ?below currentDepth current (entry # entries)
                  = entry_lines ?below currentDepth current entries"
        using k by simp
      from "3.IH"(5) [OF nodir False "3.prems"] show ?thesis unfolding w el .
    qed
  qed
qed

lemma walk_entries_at_limit:
  "walk_entries env root d current d entries lines w =
     (Inr (lines @ map (\<lambda>e. indent (d + 1) @ d_name e) (filter (\<lambda>e. d_kind e = IsFile) entries)),
      w)"
  by (induction entries arbitrary: lines) auto

lemma rel_line_root: "rel_line env root root 0 = ''./''"
  by (simp add: rel_line_def path_relative_def indent_def)

lemma buildRepoMap_zero:
  assumes "fs_readdir env root (ext w) = Some entries"
  shows "buildRepoMap env root 0 w =
           (Inr (join_with [CHR 0x0A]
                   (''./'' # map (\<lambda>e. ''  '' @ d_name e) (filter (\<lambda>e. d_kind e = IsFile) entries))),
            log_event (EvReaddir root) w)"
  using assms
  by (simp add: buildRepoMap_def io_bind_def io_return_def readdir_def walk_entries_at_limit
        rel_line_root indent_def)

lemma snd_buildRepoMap: "snd (buildRepoMap env root depth w) = snd (walk env root depth root 0 [] w)"
  by (simp add: buildRepoMap_def io_bind_def io_return_def split: prod.splits sum.splits)

lemma fst_buildRepoMap:
  "fst (buildRepoMap env root depth w) =
     (case fst (walk env root depth root 0 [] w) of
        Inl e \<Rightarrow> Inl e
      | Inr lines \<Rightarrow> Inr (join_with [CHR 0x0A] lines))"
  by (simp add: buildRepoMap_def io_bind_def io_return_def split: prod.splits sum.splits)

text \<open>
  C5, as stated: for a non-empty root directory, \<open>buildRepoMap(root, 0)\<close> returns only
  the root line and no file entries. The depth test guards the descent into a directory,
  not the listing of the files of a directory that is read: the root is read at depth 0
  and its file \<open>README.md\<close> is listed.
\<close>

theorem buildRepoMap_depth_zero_lists_files:
  "fs_readdir tree_env ''/repo'' () =
     Some [Dirent ''README.md'' IsFile, Dirent ''node_modules'' IsDirectory,
           Dirent ''src'' IsDirectory, Dirent ''link'' IsOther]
   \<and> fst (buildRepoMap tree_env ''/repo'' 0 start_world)
        = Inr (''./'' @ [CHR 0x0A] @ ''  README.md'')"
  by code_simp

text \<open>
  C5, amended. For a readable root directory, \<open>buildRepoMap(root, 0)\<close> returns the root
  line \<open>./\<close> followed by one line, indented by two spaces, for each regular file directly
  in the root, in directory order, and nothing for subdirectories or what is below them;
  the root is the only directory read. For every depth, \<open>buildRepoMap\<close> reads directories
  only, and every directory it reads is the root or is reached from the root through at
  most \<open>depth\<close> names, each of them the name of a directory entry listed in the directory
  reached before it, and none of them matching the ignore set when both are put in lower
  case. For every depth, the text returned is the listing of the specification down to
  \<open>depth\<close> levels below the root, its lines joined by newlines: the files of a directory
  at level \<open>depth\<close> are listed, its subdirectories are not; and when a directory of that
  listing cannot be read, \<open>buildRepoMap\<close> fails with the read error.
\<close>

theorem buildRepoMap_depth_bound:
  "(fs_readdir env root (ext w) = Some entries \<longrightarrow>
      buildRepoMap env root 0 w =
        (Inr (join_with [CHR 0x0A]
                (''./'' # map (\<lambda>e. ''  '' @ d_name e) (filter (\<lambda>e. d_kind e = IsFile) entries))),
         log_event (EvReaddir root) w))
   \<and> (\<exists>evs. trace (snd (buildRepoMap env root depth w)) = trace w @ evs
        \<and> (\<forall>ev \<in> set evs. \<exists>names. ev = EvReaddir (descend root names)
              \<and> length names \<le> depth \<and> dir_chain env (ext w) root names))
   \<and> (listing (Suc depth) env (ext w) root 0 root = Some ls \<longrightarrow>
        fst (buildRepoMap env root depth w) = Inr (join_with [CHR 0x0A] ls))
   \<and> (listing (Suc depth) env (ext w) root 0 root = None \<longrightarrow>
        (\<exists>p. fst (buildRepoMap env root depth w) = Inl (ReaddirError p)))"
proof -
  have z: "fs_readdir env root (ext w) = Some entries \<longrightarrow>
      buildRepoMap env root 0 w =
        (Inr (join_with [CHR 0x0A]
                (''./'' # map (\<lambda>e. ''  '' @ d_name e) (filter (\<lambda>e. d_kind e = IsFile) entries))),
         log_event (EvReaddir root) w)"
    using buildRepoMap_zero [of env root w entries] by blast
  have "reads_chain env (ext w) root depth w (snd (walk env root depth root 0 [] w))"
    using walk_reads_chain(1) [of env root depth root 0 "[]" w
            "fst (walk env root depth root 0 [] w)" "snd (walk env root depth root 0 [] w)" "[]"]
    by (simp add: descend_def del: walk.simps)
  then have r: "\<exists>evs. trace (snd (buildRepoMap env root depth w)) = trace w @ evs
        \<and> (\<forall>ev \<in> set evs. \<exists>names. ev = EvReaddir (descend root names)
              \<and> length names \<le> depth \<and> dir_chain env (ext w) root names)"
    unfolding reads_chain_def snd_buildRepoMap .
  have l: "(case listing (Suc depth) env (ext w) root 0 root of
              Some ls \<Rightarrow> fst (walk env root depth root 0 [] w) = Inr ls
            | None \<Rightarrow> (\<exists>p. fst (walk env root depth root 0 [] w) = Inl (ReaddirError p)))"
    using walk_listing(1) [OF refl, where w = w and depth = depth and cd = 0 and env = env
            and root = root and current = root and lines = "[]"]
    by (cases "listing (Suc depth) env (ext w) root 0 root")
       (simp_all del: walk.simps listing.simps)
  have s: "listing (Suc depth) env (ext w) root 0 root = Some ls \<longrightarrow>
        fst (buildRepoMap env root depth w) = Inr (join_with [CHR 0x0A] ls)"
  proof
    assume "listing (Suc depth) env (ext w) root 0 root = Some ls"
    with l have "fst (walk env root depth root 0 [] w) = Inr ls" by (simp del: walk.simps listing.simps)
    then show "fst (buildRepoMap env root depth w) = Inr (join_with [CHR 0x0A] ls)"
      unfolding fst_buildRepoMap by simp
  qed
  have n: "listing (Suc depth) env (ext w) root 0 root = None \<longrightarrow>
        (\<exists>p. fst (buildRepoMap env root depth w) = Inl (ReaddirError p))"
  proof
    assume "listing (Suc depth) env (ext w) root 0 root = None"
    with l obtain p where "fst (walk env root depth root 0 [] w) = Inl (ReaddirError p)"
      by (auto simp del: walk.simps listing.simps)
    then show "\<exists>p. fst (buildRepoMap env root depth w) = Inl (ReaddirError p)"
      unfolding fst_buildRepoMap by simp
  qed
  show ?thesis
    by (intro conjI) (rule z, rule r, rule s, rule n)
qed

theorem buildRepoMap_depth_bound_witness:
  "fs_readdir tree_env ''/repo'' (ext start_world) =
     Some [Dirent ''README.md'' IsFile, Dirent ''node_modules'' IsDirectory,
           Dirent ''src'' IsDirectory, Dirent ''link'' IsOther]
   \<and> buildRepoMap tree_env ''/repo'' 0 start_world
        = (Inr (''./'' @ [CHR 0x0A] @ ''  README.md''), \<lparr>trace = [EvReaddir ''/repo''], ext = ()\<rparr>)
   \<and> listing 2 mixed_env (ext start_world) ''/repo'' 0 ''/repo''
        = Some [''./'', ''  README.md'', ''  src/'', ''    main.ts'']
   \<and> fst (buildRepoMap mixed_env ''/repo'' 1 start_world)
        = Inr (''./'' @ [CHR 0x0A] @ ''  README.md'' @ [CHR 0x0A] @ ''  src/'' @ [CHR 0x0A]
               @ ''    main.ts'')
   \<and> trace (snd (buildRepoMap mixed_env ''/repo'' 1 start_world))
        = [EvReaddir ''/repo'', EvReaddir ''/repo/src'']
   \<and> descend ''/repo'' [''src''] = ''/repo/src''
   \<and> dir_chain mixed_env () ''/repo'' [''src'']
   \<and> \<not> dir_chain mixed_env () ''/repo'' [''Node_Modules'']
   \<and> listing 3 mixed_env (ext start_world) ''/repo'' 0 ''/repo'' = None
   \<and> (\<exists>p. fst (buildRepoMap mixed_env ''/repo'' 2 start_world) = Inl (ReaddirError p))
   \<and> buildRepoMap mixed_env ''/repo'' 2 start_world
        = (Inl (ReaddirError ''/repo/src/lib''),
           \<lparr>trace = [EvReaddir ''/repo'', EvReaddir ''/repo/src'', EvReaddir ''/repo/src/lib''],
            ext = ()\<rparr>)"
proof -
  have a: "fs_readdir tree_env ''/repo'' (ext start_world) =
     Some [Dirent ''README.md'' IsFile, Dirent ''node_modules'' IsDirectory,
           Dirent ''src'' IsDirectory, Dirent ''link'' IsOther]"
    by (simp add: tree_env_def quiet_env_def)
  from buildRepoMap_depth_bound
         [of tree_env "''/repo''" start_world _ 0, THEN conjunct1, rule_format, OF a]
  have b: "buildRepoMap tree_env ''/repo'' 0 start_world
        = (Inr (''./'' @ [CHR 0x0A] @ ''  README.md''), \<lparr>trace = [EvReaddir ''/repo''], ext = ()\<rparr>)"
    by (simp add: log_event_def start_world_def)
  have c: "listing 2 mixed_env (ext start_world) ''/repo'' 0 ''/repo''
        = Some [''./'', ''  README.md'', ''  src/'', ''    main.ts'']"
    by code_simp
  have c': "listing (Suc 1) mixed_env (ext start_world) ''/repo'' 0 ''/repo''
        = Some [''./'', ''  README.md'', ''  src/'', ''    main.ts'']"
    using c by (simp only: numeral_2_eq_2 One_nat_def)
  have j: "join_with [CHR 0x0A] [''./'', ''  README.md'', ''  src/'', ''    main.ts'']
             = ''./'' @ [CHR 0x0A] @ ''  README.md'' @ [CHR 0x0A] @ ''  src/'' @ [CHR 0x0A]
               @ ''    main.ts''"
    by code_simp
  from buildRepoMap_depth_bound
         [of mixed_env "''/repo''" start_world _ 1, THEN conjunct2, THEN conjunct2,
          THEN conjunct1, rule_format, OF c']
  have d: "fst (buildRepoMap mixed_env ''/repo'' 1 start_world)
        = Inr (''./'' @ [CHR 0x0A] @ ''  README.md'' @ [CHR 0x0A] @ ''  src/'' @ [CHR 0x0A]
               @ ''    main.ts'')"
    unfolding j .
  have e: "trace (snd (buildRepoMap mixed_env ''/repo'' 1 start_world))
        = [EvReaddir ''/repo'', EvReaddir ''/repo/src'']"
    by code_simp
  have f: "descend ''/repo'' [''src''] = ''/repo/src''"
    by code_simp
  have g: "dir_chain mixed_env () ''/repo'' [''src'']"
    by code_simp
  have h: "\<not> dir_chain mixed_env () ''/repo'' [''Node_Modules'']"
    by code_simp
  have i: "listing 3 mixed_env (ext start_world) ''/repo'' 0 ''/repo'' = None"
    by code_simp
  have i': "listing (Suc 2) mixed_env (ext start_world) ''/repo'' 0 ''/repo'' = None"
    using i by (simp only: numeral_3_eq_3 numeral_2_eq_2)
  from buildRepoMap_depth_bound
         [of mixed_env "''/repo''" start_world _ 2, THEN conjunct2, THEN conjunct2,
          THEN conjunct2, rule_format, OF i']
  have k: "\<exists>p. fst (buildRepoMap mixed_env ''/repo'' 2 start_world) = Inl (ReaddirError p)" .
  have m: "buildRepoMap mixed_env ''/repo'' 2 start_world
        = (Inl (ReaddirError ''/repo/src/lib''),
           \<lparr>trace = [EvReaddir ''/repo'', EvReaddir ''/repo/src'', EvReaddir ''/repo/src/lib''],
            ext = ()\<rparr>)"
    by code_simp
  show ?thesis
    by (intro conjI) (rule a, rule b, rule c, rule d, rule e, rule f, rule g, rule h, rule i,
         rule k, rule m)
qed

section \<open>The verification loop is bounded\<close>

declare verify_loop.simps [simp del]

lemma counts_log_event:
  "counts (log_event ev w) =
     (case ev of
        EvBackend p \<Rightarrow> (count_backend w + 1, count_exec w)
      | EvExec c d \<Rightarrow> (count_backend w, count_exec w + 1)
      | _ \<Rightarrow> counts w)"
  by (simp add: counts_def count_backend_def count_exec_def log_event_def is_backend_def
        is_exec_def split: event.splits)

lemma counts_ext_update [simp]: "counts (w\<lparr>ext := x\<rparr>) = counts w"
  by (simp add: counts_def count_backend_def count_exec_def)

lemma counts_readFile: "readFile env p w = (r, w') \<Longrightarrow> counts w' = counts w"
  by (auto simp: readFile_def counts_log_event)

lemma counts_readFileCapped: "readFileCapped env p n w = (r, w') \<Longrightarrow> counts w' = counts w"
  by (auto simp: readFileCapped_def io_bind_def io_return_def
           split: prod.splits sum.splits dest: counts_readFile)

lemma counts_readFilesSafe_loop:
  "readFilesSafe_loop env root files results w = (r, w') \<Longrightarrow> counts w' = counts w"
proof (induction files arbitrary: results w)
  case Nil
  then show ?case by simp
next
  case (Cons f fs)
  show ?case
  proof (cases "resolveSafePath (process_cwd env) root f")
    case (Inl e)
    with Cons.prems show ?thesis by simp
  next
    case (Inr resolved)
    obtain r1 w1 where rc: "readFileCapped env resolved 60000 w = (r1, w1)"
      by (cases "readFileCapped env resolved 60000 w")
    have c1: "counts w1 = counts w" by (rule counts_readFileCapped [OF rc])
    show ?thesis
    proof (cases r1)
      case (Inl e)
      with Cons.prems Inr rc c1 show ?thesis by simp
    next
      case (Inr content)
      with Cons.prems \<open>resolveSafePath (process_cwd env) root f = Inr resolved\<close> rc
      have "readFilesSafe_loop env root fs (record_set results f content) w1 = (r, w')"
        by simp
      from Cons.IH [OF this] c1 show ?thesis by simp
    qed
  qed
qed

lemma counts_readPrompt_loop:
  "readPrompt_loop env name candidates w = (r, w') \<Longrightarrow> counts w' = counts w"
proof (induction candidates arbitrary: w)
  case Nil
  then show ?case by simp
next
  case (Cons p ps)
  obtain r1 w1 where rf: "readFile env p w = (r1, w1)" by (cases "readFile env p w")
  have c1: "counts w1 = counts w" by (rule counts_readFile [OF rf])
  show ?case
  proof (cases r1)
    case (Inl e)
    with Cons.prems rf have "readPrompt_loop env name ps w1 = (r, w')" by simp
    from Cons.IH [OF this] c1 show ?thesis by simp
  next
    case (Inr t)
    with Cons.prems rf c1 show ?thesis by simp
  qed
qed

lemma counts_readPrompt: "readPrompt env name w = (r, w') \<Longrightarrow> counts w' = counts w"
  unfolding readPrompt_def Let_def by (rule counts_readPrompt_loop)

lemma counts_callCodex:
  "callCodex env prompt input w = (r, w') \<Longrightarrow> counts w' = (count_backend w + 1, count_exec w)"
  by (auto simp: callCodex_def counts_log_event counts_def [of "w\<lparr>ext := x\<rparr>" for x]
        count_backend_def count_exec_def split: prod.splits)

lemma counts_runCommand:
  "runCommand env command cwd w = (r, w') \<Longrightarrow> counts w' = (count_backend w, count_exec w + 1)"
  by (auto simp: runCommand_def counts_log_event counts_def [of "w\<lparr>ext := x\<rparr>" for x]
        count_backend_def count_exec_def split: prod.splits)

lemma counts_applyPatch: "applyPatch env diff options w = (r, w') \<Longrightarrow> counts w' = counts w"
  by (auto simp: applyPatch_def Let_def io_throw_def applyViaStdin_def counts_log_event
           split: if_splits option.splits prod.splits)

lemma io_bind_Inr:
  assumes "io_bind m f w = (Inr b, w')"
  obtains a w1 where "m w = (Inr a, w1)" "f a w1 = (Inr b, w')"
  using assms by (auto simp: io_bind_def split: prod.splits sum.splits)

lemma counts_apply_fix:
  assumes "apply_fix env root task plan diff command result w = (Inr u, w')"
  shows "counts w' = (count_backend w + 1, count_exec w)"
proof -
  let ?files = "extractFilePaths (stdout result @ [CHR 0x0A] @ stderr result)"
  let ?safe = "filter (\<lambda>file.
                        (case resolveSafePath (process_cwd env) root file of
                           Inr _ \<Rightarrow> True
                         | Inl _ \<Rightarrow> False)) ?files"
  from assms obtain ctx w1 where
    s1: "(if length ?safe > 0 then readFilesSafe env root ?safe else io_return Map.empty) w
           = (Inr ctx, w1)"
    and rest1: "io_bind (readPrompt env ''fixer.code.txt'')
                (\<lambda>fixerPrompt.
                   io_bind (callCodex env fixerPrompt
                              \<lparr>in_task = task, in_plan = plan, in_diff = diff,
                               in_command = command, in_output = stdout result,
                               in_errors = stderr result, in_context = ctx\<rparr>)
                     (\<lambda>fixRaw.
                        applyPatch env fixRaw
                          \<lparr>opt_root = root, opt_allowDelete = None,
                           opt_allowedExtensions = None\<rparr>)) w1 = (Inr u, w')"
    unfolding apply_fix_def Let_def by (rule io_bind_Inr)
  from rest1 obtain fixerPrompt w2 where
    s2: "readPrompt env ''fixer.code.txt'' w1 = (Inr fixerPrompt, w2)"
    and rest2: "io_bind (callCodex env fixerPrompt
                              \<lparr>in_task = task, in_plan = plan, in_diff = diff,
                               in_command = command, in_output = stdout result,
                               in_errors = stderr result, in_context = ctx\<rparr>)
                     (\<lambda>fixRaw.
                        applyPatch env fixRaw
                          \<lparr>opt_root = root, opt_allowDelete = None,
                           opt_allowedExtensions = None\<rparr>) w2 = (Inr u, w')"
    by (rule io_bind_Inr)
  from rest2 obtain fixRaw w3 where
    s3: "callCodex env fixerPrompt
           \<lparr>in_task = task, in_plan = plan, in_diff = diff,
            in_command = command, in_output = stdout result,
            in_errors = stderr result, in_context = ctx\<rparr> w2 = (Inr fixRaw, w3)"
    and s4: "applyPatch env fixRaw
               \<lparr>opt_root = root, opt_allowDelete = None, opt_allowedExtensions = None\<rparr> w3
             = (Inr u, w')"
    by (rule io_bind_Inr)
  have c1: "counts w1 = counts w"
    using s1 counts_readFilesSafe_loop [of env root ?safe Map.empty w "Inr ctx" w1]
    by (auto simp: readFilesSafe_def io_return_def split: if_splits)
  have c2: "counts w2 = counts w1" by (rule counts_readPrompt [OF s2])
  have c3: "counts w3 = (count_backend w2 + 1, count_exec w2)" by (rule counts_callCodex [OF s3])
  have c4: "counts w' = counts w3" by (rule counts_applyPatch [OF s4])
  from c1 c2 c3 c4 show ?thesis by (simp add: counts_def)
qed

lemma failing_round:
  assumes H1: "\<forall>w. \<exists>result w1. runCommand env c root w = (Inr result, w1) \<and> exitCode result \<noteq> 0"
    and H2: "\<forall>w result w1. runCommand env c root w = (Inr result, w1) \<longrightarrow>
               (\<exists>w2. apply_fix env root task plan diff c result w1 = (Inr (), w2))"
  shows "\<exists>w2 w3. first_pass env root task plan diff (c # rest) w = (Inr True, w2)
           \<and> runAll env (c # rest) root w2 = (Inr False, w3)
           \<and> counts w3 = (count_backend w + 1, count_exec w + 2)"
proof -
  from H1 obtain result w1 where
    r1: "runCommand env c root w = (Inr result, w1)" and e1: "exitCode result \<noteq> 0"
    by blast
  from H2 r1 obtain w2 where
    f: "apply_fix env root task plan diff c result w1 = (Inr (), w2)"
    by blast
  from H1 obtain result' w3 where
    r2: "runCommand env c root w2 = (Inr result', w3)" and e2: "exitCode result' \<noteq> 0"
    by blast
  have fp: "first_pass env root task plan diff (c # rest) w = (Inr True, w2)"
    using r1 e1 f by simp
  have ra: "runAll env (c # rest) root w2 = (Inr False, w3)"
    using r2 e2 by simp
  have "counts w1 = (count_backend w, count_exec w + 1)" by (rule counts_runCommand [OF r1])
  moreover have "counts w2 = (count_backend w1 + 1, count_exec w1)" by (rule counts_apply_fix [OF f])
  moreover have "counts w3 = (count_backend w2, count_exec w2 + 1)" by (rule counts_runCommand [OF r2])
  ultimately have "counts w3 = (count_backend w + 1, count_exec w + 2)"
    by (simp add: counts_def)
  with fp ra show ?thesis by blast
qed

lemma failing_step:
  assumes H1: "\<forall>w. \<exists>result w1. runCommand env c root w = (Inr result, w1) \<and> exitCode result \<noteq> 0"
    and H2: "\<forall>w result w1. runCommand env c root w = (Inr result, w1) \<longrightarrow>
               (\<exists>w2. apply_fix env root task plan diff c result w1 = (Inr (), w2))"
    and a: "a < 3"
  shows "\<exists>w3. verify_loop env root task plan diff (c # rest) a w
               = verify_loop env root task plan diff (c # rest) (Suc a) w3
           \<and> counts w3 = (count_backend w + 1, count_exec w + 2)"
proof -
  from failing_round [OF H1 H2, of rest w] obtain w2 w3 where
    fp: "first_pass env root task plan diff (c # rest) w = (Inr True, w2)"
    and ra: "runAll env (c # rest) root w2 = (Inr False, w3)"
    and cn: "counts w3 = (count_backend w + 1, count_exec w + 2)"
    by blast
  have "verify_loop env root task plan diff (c # rest) a w
          = (if a < 3 then
              (case first_pass env root task plan diff (c # rest) w of
                 (Inl e, w1) \<Rightarrow> ((Inl e, a + 1), w1)
               | (Inr failed, w1) \<Rightarrow>
                   (if \<not> failed then ((Inr (), a + 1), w1)
                    else
                      (case runAll env (c # rest) root w1 of
                         (Inl e, w2) \<Rightarrow> ((Inl e, a + 1), w2)
                       | (Inr rerunSucceeded, w2) \<Rightarrow>
                           (if rerunSucceeded then ((Inr (), a + 1), w2)
                            else verify_loop env root task plan diff (c # rest) (a + 1) w2))))
            else ((Inl VerificationFailed, a), w))"
    by (rule verify_loop.simps)
  also have "\<dots> = verify_loop env root task plan diff (c # rest) (Suc a) w3"
    unfolding fp using a by (simp add: ra del: runAll.simps first_pass.simps)
  finally show ?thesis using cn by blast
qed

lemma verify_loop_exhausted:
  assumes H1: "\<forall>w. \<exists>result w1. runCommand env c root w = (Inr result, w1) \<and> exitCode result \<noteq> 0"
    and H2: "\<forall>w result w1. runCommand env c root w = (Inr result, w1) \<longrightarrow>
               (\<exists>w2. apply_fix env root task plan diff c result w1 = (Inr (), w2))"
  shows "\<exists>w'. verify_loop env root task plan diff (c # rest) 0 w = ((Inl VerificationFailed, 3), w')
           \<and> count_backend w' = count_backend w + 3 \<and> count_exec w' = count_exec w + 6"
proof -
  have l: "(0::nat) < 3" "Suc 0 < 3" "Suc (Suc 0) < 3" by simp_all
  from failing_step [OF H1 H2 l(1), of rest w] obtain wa where
    s1: "verify_loop env root task plan diff (c # rest) 0 w
           = verify_loop env root task plan diff (c # rest) (Suc 0) wa"
    and c1: "counts wa = (count_backend w + 1, count_exec w + 2)" by blast
  from failing_step [OF H1 H2 l(2), of rest wa] obtain wb where
    s2: "verify_loop env root task plan diff (c # rest) (Suc 0) wa
           = verify_loop env root task plan diff (c # rest) (Suc (Suc 0)) wb"
    and c2: "counts wb = (count_backend wa + 1, count_exec wa + 2)" by blast
  from failing_step [OF H1 H2 l(3), of rest wb] obtain wc where
    s3: "verify_loop env root task plan diff (c # rest) (Suc (Suc 0)) wb
           = verify_loop env root task plan diff (c # rest) (Suc (Suc (Suc 0))) wc"
    and c3: "counts wc = (count_backend wb + 1, count_exec wb + 2)" by blast
  have s4: "verify_loop env root task plan diff (c # rest) (Suc (Suc (Suc 0))) wc
              = ((Inl VerificationFailed, 3), wc)"
    by (subst verify_loop.simps) (simp add: numeral_3_eq_3)
  have "verify_loop env root task plan diff (c # rest) 0 w = ((Inl VerificationFailed, 3), wc)"
    using s1 s2 s3 s4 by simp
  moreover have "count_backend wc = count_backend w + 3 \<and> count_exec wc = count_exec w + 6"
    using c1 c2 c3 by (simp add: counts_def)
  ultimately show ?thesis by blast
qed

lemma runAll_first_pass:
  "runAll env cmds root w = (Inr True, w1) \<Longrightarrow>
     first_pass env root task plan diff cmds w = (Inr False, w1)"
proof (induction cmds arbitrary: w)
  case Nil
  then show ?case by simp
next
  case (Cons c cs)
  obtain r1 wa where rc: "runCommand env c root w = (r1, wa)" by (cases "runCommand env c root w")
  show ?case
  proof (cases r1)
    case (Inl e)
    with Cons.prems rc show ?thesis by simp
  next
    case (Inr result)
    with Cons.prems rc have z: "exitCode result = 0" and
      rest: "runAll env cs root wa = (Inr True, w1)"
      by (auto split: if_splits)
    from Cons.IH [OF rest] rc Inr z show ?thesis by simp
  qed
qed

lemma count_backend_runAll:
  "runAll env cmds root w = (r, w1) \<Longrightarrow> count_backend w1 = count_backend w"
proof (induction cmds arbitrary: w)
  case Nil
  then show ?case by simp
next
  case (Cons c cs)
  obtain r1 wa where rc: "runCommand env c root w = (r1, wa)" by (cases "runCommand env c root w")
  have c1: "count_backend wa = count_backend w"
    using counts_runCommand [OF rc] by (simp add: counts_def)
  show ?case
  proof (cases r1)
    case (Inl e)
    with Cons.prems rc c1 show ?thesis by simp
  next
    case (Inr result)
    show ?thesis
    proof (cases "exitCode result = 0")
      case True
      with Cons.prems rc Inr have "runAll env cs root wa = (r, w1)" by simp
      from Cons.IH [OF this] c1 show ?thesis by simp
    next
      case False
      with Cons.prems rc Inr c1 show ?thesis by simp
    qed
  qed
qed

lemma verify_loop_clean:
  assumes "runAll env cmds root w = (Inr True, w1)"
  shows "verify_loop env root task plan diff cmds 0 w = ((Inr (), 1), w1)
         \<and> count_backend w1 = count_backend w"
  using runAll_first_pass [OF assms, of task plan diff] count_backend_runAll [OF assms]
  by (subst verify_loop.simps) simp

lemma verify_loop_bound:
  "a \<le> 3 \<Longrightarrow> snd (fst (verify_loop env root task plan diff cmds a w)) \<le> 3"
proof (induction env root task plan diff cmds a w rule: verify_loop.induct)
  case (1 env root task plan diff cmds attempt w)
  show ?case
  proof (cases "attempt < 3")
    case False
    with "1.prems" show ?thesis by (subst verify_loop.simps) simp
  next
    case True
    obtain r1 w1 where fp: "first_pass env root task plan diff cmds w = (r1, w1)"
      by (cases "first_pass env root task plan diff cmds w")
    show ?thesis
    proof (cases r1)
      case (Inl e)
      with True fp show ?thesis by (subst verify_loop.simps) simp
    next
      case (Inr failed)
      show ?thesis
      proof (cases failed)
        case False
        with True fp Inr show ?thesis by (subst verify_loop.simps) simp
      next
        case failed: True
        obtain r2 w2 where ra: "runAll env cmds root w1 = (r2, w2)"
          by (cases "runAll env cmds root w1")
        show ?thesis
        proof (cases r2)
          case (Inl e)
          with True fp Inr failed ra show ?thesis by (subst verify_loop.simps) simp
        next
          case ok: (Inr rerunSucceeded)
          show ?thesis
          proof (cases rerunSucceeded)
            case True
            with \<open>attempt < 3\<close> fp Inr failed ra ok show ?thesis
              by (subst verify_loop.simps) simp
          next
            case False
            have "snd (fst (verify_loop env root task plan diff cmds (attempt + 1) w2)) \<le> 3"
              using "1.IH" [OF True fp [symmetric] Inr _ ra [symmetric] ok False] failed True
              by simp
            with True fp Inr failed ra ok False show ?thesis
              by (subst verify_loop.simps) simp
          qed
        qed
      qed
    qed
  qed
qed

lemma verify_loop_first_pass_throws:
  assumes "a < 3" "first_pass env root task plan diff cmds w = (Inl e, w1)"
  shows "verify_loop env root task plan diff cmds a w = ((Inl e, a + 1), w1)"
  using assms by (subst verify_loop.simps) (simp del: first_pass.simps)

lemma verify_loop_rerun_throws:
  assumes "a < 3" "first_pass env root task plan diff cmds w = (Inr True, w1)"
    and "runAll env cmds root w1 = (Inl e, w2)"
  shows "verify_loop env root task plan diff cmds a w = ((Inl e, a + 1), w2)"
  using assms by (subst verify_loop.simps) (simp del: first_pass.simps runAll.simps)

lemma verify_loop_fix_throws:
  assumes "a < 3" "runCommand env c root w = (Inr result, w1)" "exitCode result \<noteq> 0"
    and "apply_fix env root task plan diff c result w1 = (Inl e, w2)"
  shows "verify_loop env root task plan diff (c # rest) a w = ((Inl e, a + 1), w2)"
proof -
  have "first_pass env root task plan diff (c # rest) w = (Inl e, w2)"
    using assms(2-4) by simp
  with assms(1) show ?thesis by (rule verify_loop_first_pass_throws)
qed

lemma fixing_env_fields:
  "process_cwd fixing_env = ''/work''"
  "module_dir fixing_env = ''/app/dist''"
  "fs_readFile fixing_env ''/app/dist/prompts/fixer.code.txt'' x = Some ''Fix the failure.''"
  "exec_shell fixing_env c d x = (ExecFailed (Some []) (Some ''1 test failed'') (Some 1), x)"
  "thread_run fixing_env p i x = (RunString ''diff --git a/src/x.ts b/src/x.ts'', x)"
  "spawn_git fixing_env args d input x = (SpawnClosed (Some 0) [], x)"
  by (simp_all add: fixing_env_def failing_env_def quiet_env_def)

lemma fixing_env_command:
  "runCommand fixing_env c root w =
     (Inr \<lparr>stdout = [], stderr = ''1 test failed'', exitCode = 1\<rparr>,
      log_event (EvExec c root) (w\<lparr>ext := ext w\<rparr>))"
  by (simp add: runCommand_def fixing_env_fields)

lemma fixing_env_fix:
  "\<exists>w2. apply_fix fixing_env ''/repo'' task plan diff command
           \<lparr>stdout = [], stderr = ''1 test failed'', exitCode = 1\<rparr> w = (Inr (), w2)"
proof -
  have e1: "extractFilePaths (CHR 0x0A # ''1 test failed'') = []" by code_simp
  have e2: "path_resolve ''/work'' [''/app/dist'', ''prompts'', ''fixer.code.txt'']
              = ''/app/dist/prompts/fixer.code.txt''" by code_simp
  have e3: "extractFilesFromDiff ''diff --git a/src/x.ts b/src/x.ts'' = [''a/src/x.ts'']"
    by code_simp
  have e4: "check_files None [''a/src/x.ts''] = None" by code_simp
  have e5: "\<not> str_includes ''diff --git a/src/x.ts b/src/x.ts'' ''deleted file mode''"
    by code_simp
  have p: "readPrompt fixing_env ''fixer.code.txt'' v
             = (Inr ''Fix the failure.'',
                log_event (EvReadFile ''/app/dist/prompts/fixer.code.txt'') v)" for v
    unfolding readPrompt_def Let_def fixing_env_fields e2
    by (simp add: readFile_def fixing_env_fields)
  have c: "callCodex fixing_env prompt input v
             = (Inr ''diff --git a/src/x.ts b/src/x.ts'',
                log_event (EvBackend prompt) (v\<lparr>ext := ext v\<rparr>))" for prompt input v
    by (simp add: callCodex_def fixing_env_fields)
  have a: "applyPatch fixing_env ''diff --git a/src/x.ts b/src/x.ts''
             \<lparr>opt_root = ''/repo'', opt_allowDelete = None, opt_allowedExtensions = None\<rparr> v
           = (Inr (), log_event (git_spawn ''/repo'' ''diff --git a/src/x.ts b/src/x.ts'')
                        (v\<lparr>ext := ext v\<rparr>))" for v
    unfolding applyPatch_def Let_def e3
    using e4 e5
    by (simp add: applyViaStdin_def fixing_env_fields git_spawn_def del: check_files.simps)
  show ?thesis
    unfolding apply_fix_def Let_def
    by (simp add: e1 io_bind_def io_return_def p c a)
qed

text \<open>
  C4, as stated: when the first command always fails and no fix makes it pass, the loop
  performs exactly three outer attempts and then fails. In \<open>failing_env\<close> the command
  fails on every run and the backend's answer is not a diff: the patch guard rejects it,
  nothing in the loop catches that, and the loop is left in its first attempt with the
  guard's error.
\<close>

theorem verifyCommands_stops_at_rejected_fix:
  "fst (runCommand failing_env ''npm test'' ''/repo'' start_world)
     = Inr \<lparr>stdout = [], stderr = ''1 test failed'', exitCode = 1\<rparr>
   \<and> fst (verify_loop failing_env ''/repo'' ''task'' test_plan ''diff'' [''npm test''] 0 start_world)
       = (Inl NoFilesInDiff, 1)
   \<and> count_backend
        (snd (verify_loop failing_env ''/repo'' ''task'' test_plan ''diff'' [''npm test''] 0
                start_world)) = 1
   \<and> fst (verifyCommands failing_env ''/repo'' ''task'' test_plan ''diff'' start_world)
       = Inl NoFilesInDiff"
  by code_simp

text \<open>
  C4, amended. The loop never makes more than three outer attempts. When the first
  command fails on every run and every fix step completes (the context is read, the
  prompt is loaded, the backend answers, and the patch guard accepts and applies the
  fix) without making it pass, the loop performs exactly three outer attempts, with one
  backend call each and two runs of the command each, and then fails with the
  verification error. In every attempt, a fix step that throws, or any other throw in
  the first pass or in the recheck pass, ends the loop in that attempt with its error:
  the loop catches nothing. When the whole command sequence succeeds on the first run,
  the loop is left in attempt one with no backend call. With no commands, or an empty
  list, verification returns successfully and changes nothing.
\<close>

theorem verifyCommands_three_attempts:
  "((\<forall>w. \<exists>result w1. runCommand env c root w = (Inr result, w1) \<and> exitCode result \<noteq> 0)
     \<and> (\<forall>w result w1. runCommand env c root w = (Inr result, w1) \<longrightarrow>
           (\<exists>w2. apply_fix env root task plan diff c result w1 = (Inr (), w2)))
     \<longrightarrow> (\<exists>w'. verify_loop env root task plan diff (c # rest) 0 w
                  = ((Inl VerificationFailed, 3), w')
              \<and> count_backend w' = count_backend w + 3
              \<and> count_exec w' = count_exec w + 6))
   \<and> (runAll env cmds root w = (Inr True, w1)
     \<longrightarrow> verify_loop env root task plan diff cmds 0 w = ((Inr (), 1), w1)
         \<and> count_backend w1 = count_backend w)
   \<and> (commands plan = None \<or> commands plan = Some []
     \<longrightarrow> verifyCommands env root task plan diff w = (Inr (), w))
   \<and> (commands plan = Some cmds \<and> cmds \<noteq> []
     \<longrightarrow> verifyCommands env root task plan diff w
           = (fst (fst (verify_loop env root task plan diff cmds 0 w)),
              snd (verify_loop env root task plan diff cmds 0 w)))
   \<and> (a < 3 \<and> runCommand env c root w = (Inr result, wa) \<and> exitCode result \<noteq> 0
        \<and> apply_fix env root task plan diff c result wa = (Inl e, wb)
     \<longrightarrow> verify_loop env root task plan diff (c # rest) a w = ((Inl e, a + 1), wb))
   \<and> (a < 3 \<and> first_pass env root task plan diff cmds w = (Inl e, wb)
     \<longrightarrow> verify_loop env root task plan diff cmds a w = ((Inl e, a + 1), wb))
   \<and> (a < 3 \<and> first_pass env root task plan diff cmds w = (Inr True, wa)
        \<and> runAll env cmds root wa = (Inl e, wb)
     \<longrightarrow> verify_loop env root task plan diff cmds a w = ((Inl e, a + 1), wb))
   \<and> (a \<le> 3 \<longrightarrow> snd (fst (verify_loop env root task plan diff cmds a w)) \<le> 3)"
proof (intro conjI impI)
  assume h: "(\<forall>w. \<exists>result w1. runCommand env c root w = (Inr result, w1) \<and> exitCode result \<noteq> 0)
     \<and> (\<forall>w result w1. runCommand env c root w = (Inr result, w1) \<longrightarrow>
           (\<exists>w2. apply_fix env root task plan diff c result w1 = (Inr (), w2)))"
  show "\<exists>w'. verify_loop env root task plan diff (c # rest) 0 w
                  = ((Inl VerificationFailed, 3), w')
              \<and> count_backend w' = count_backend w + 3
              \<and> count_exec w' = count_exec w + 6"
    by (rule verify_loop_exhausted [OF h [THEN conjunct1] h [THEN conjunct2]])
next
  assume "runAll env cmds root w = (Inr True, w1)"
  then show "verify_loop env root task plan diff cmds 0 w = ((Inr (), 1), w1)"
    by (rule verify_loop_clean [THEN conjunct1])
next
  assume "runAll env cmds root w = (Inr True, w1)"
  then show "count_backend w1 = count_backend w"
    by (rule verify_loop_clean [THEN conjunct2])
next
  assume "commands plan = None \<or> commands plan = Some []"
  then show "verifyCommands env root task plan diff w = (Inr (), w)"
    by (auto simp: verifyCommands_def io_return_def)
next
  assume "commands plan = Some cmds \<and> cmds \<noteq> []"
  then show "verifyCommands env root task plan diff w
           = (fst (fst (verify_loop env root task plan diff cmds 0 w)),
              snd (verify_loop env root task plan diff cmds 0 w))"
    by (auto simp: verifyCommands_def split: prod.splits)
next
  assume "a < 3 \<and> runCommand env c root w = (Inr result, wa) \<and> exitCode result \<noteq> 0
        \<and> apply_fix env root task plan diff c result wa = (Inl e, wb)"
  then show "verify_loop env root task plan diff (c # rest) a w = ((Inl e, a + 1), wb)"
    by (blast intro: verify_loop_fix_throws)
next
  assume "a < 3 \<and> first_pass env root task plan diff cmds w = (Inl e, wb)"
  then show "verify_loop env root task plan diff cmds a w = ((Inl e, a + 1), wb)"
    by (blast intro: verify_loop_first_pass_throws)
next
  assume "a < 3 \<and> first_pass env root task plan diff cmds w = (Inr True, wa)
        \<and> runAll env cmds root wa = (Inl e, wb)"
  then show "verify_loop env root task plan diff cmds a w = ((Inl e, a + 1), wb)"
    by (blast intro: verify_loop_rerun_throws)
next
  assume "a \<le> 3"
  then show "snd (fst (verify_loop env root task plan diff cmds a w)) \<le> 3"
    by (rule verify_loop_bound)
qed

theorem verifyCommands_three_attempts_witness:
  "fst (verify_loop fixing_env ''/repo'' ''task'' test_plan ''diff'' [''npm test''] 0 start_world)
     = (Inl VerificationFailed, 3)
   \<and> count_backend
        (snd (verify_loop fixing_env ''/repo'' ''task'' test_plan ''diff'' [''npm test''] 0
                start_world)) = 3
   \<and> count_exec
        (snd (verify_loop fixing_env ''/repo'' ''task'' test_plan ''diff'' [''npm test''] 0
                start_world)) = 6
   \<and> runAll quiet_env [''npm test''] ''/repo'' start_world
       = (Inr True, \<lparr>trace = [EvExec ''npm test'' ''/repo''], ext = ()\<rparr>)
   \<and> verify_loop quiet_env ''/repo'' ''task'' test_plan ''diff'' [''npm test''] 0 start_world
       = ((Inr (), 1), \<lparr>trace = [EvExec ''npm test'' ''/repo''], ext = ()\<rparr>)
   \<and> verifyCommands quiet_env ''/repo'' ''task'' (test_plan\<lparr>commands := None\<rparr>) ''diff''
         start_world = (Inr (), start_world)
   \<and> fst (runCommand failing_env ''npm test'' ''/repo'' start_world)
       = Inr \<lparr>stdout = [], stderr = ''1 test failed'', exitCode = 1\<rparr>
   \<and> fst (apply_fix failing_env ''/repo'' ''task'' test_plan ''diff'' ''npm test''
            \<lparr>stdout = [], stderr = ''1 test failed'', exitCode = 1\<rparr>
            (snd (runCommand failing_env ''npm test'' ''/repo'' start_world)))
       = Inl NoFilesInDiff
   \<and> fst (verify_loop failing_env ''/repo'' ''task'' test_plan ''diff'' [''npm test''] 2 start_world)
       = (Inl NoFilesInDiff, 3)"
proof -
  have H1: "\<forall>w. \<exists>result w1. runCommand fixing_env ''npm test'' ''/repo'' w = (Inr result, w1)
              \<and> exitCode result \<noteq> 0"
    by (simp add: fixing_env_command)
  have H2: "\<forall>w result w1. runCommand fixing_env ''npm test'' ''/repo'' w = (Inr result, w1) \<longrightarrow>
              (\<exists>w2. apply_fix fixing_env ''/repo'' ''task'' test_plan ''diff'' ''npm test'' result w1
                      = (Inr (), w2))"
    using fixing_env_fix [of "''task''" test_plan "''diff''" "''npm test''"]
    by (auto simp: fixing_env_command)
  have ra: "runAll quiet_env [''npm test''] ''/repo'' start_world
       = (Inr True, \<lparr>trace = [EvExec ''npm test'' ''/repo''], ext = ()\<rparr>)"
    by (simp add: runCommand_def quiet_env_def start_world_def log_event_def)
  have np: "commands (test_plan\<lparr>commands := None\<rparr>) = None" by simp
  note t = verifyCommands_three_attempts
             [of fixing_env "''npm test''" "''/repo''" "''task''" test_plan "''diff''" "[]"
                 start_world]
  from t [THEN conjunct1, rule_format, OF conjI [OF H1 H2]]
  obtain w' where
    v: "verify_loop fixing_env ''/repo'' ''task'' test_plan ''diff'' [''npm test''] 0 start_world
          = ((Inl VerificationFailed, 3), w')"
    and cb: "count_backend w' = count_backend start_world + 3"
    and ce: "count_exec w' = count_exec start_world + 6"
    by blast
  have z: "count_backend start_world = 0" "count_exec start_world = 0"
    by (simp_all add: count_backend_def count_exec_def start_world_def)
  have a1: "fst (verify_loop fixing_env ''/repo'' ''task'' test_plan ''diff'' [''npm test''] 0
                   start_world) = (Inl VerificationFailed, 3)"
    by (simp add: v)
  have a2: "count_backend
        (snd (verify_loop fixing_env ''/repo'' ''task'' test_plan ''diff'' [''npm test''] 0
                start_world)) = 3"
    by (simp add: v cb z)
  have a3: "count_exec
        (snd (verify_loop fixing_env ''/repo'' ''task'' test_plan ''diff'' [''npm test''] 0
                start_world)) = 6"
    by (simp add: v ce z)
  note u = verifyCommands_three_attempts
             [of quiet_env _ "''/repo''" "''task''" test_plan "''diff''" _ start_world
                 "[''npm test'']" "\<lparr>trace = [EvExec ''npm test'' ''/repo''], ext = ()\<rparr>"]
  have a4: "verify_loop quiet_env ''/repo'' ''task'' test_plan ''diff'' [''npm test''] 0 start_world
       = ((Inr (), 1), \<lparr>trace = [EvExec ''npm test'' ''/repo''], ext = ()\<rparr>)"
    by (rule u [THEN conjunct2, THEN conjunct1, rule_format, OF ra, THEN conjunct1])
  note n = verifyCommands_three_attempts
             [of quiet_env _ "''/repo''" "''task''" "test_plan\<lparr>commands := None\<rparr>" "''diff''" _
                 start_world]
  have a5: "verifyCommands quiet_env ''/repo'' ''task'' (test_plan\<lparr>commands := None\<rparr>) ''diff''
         start_world = (Inr (), start_world)"
    by (rule n [THEN conjunct2, THEN conjunct2, THEN conjunct1, rule_format, OF disjI1 [OF np]])
  let ?res = "\<lparr>stdout = [], stderr = ''1 test failed'', exitCode = 1\<rparr>"
  let ?w1 = "snd (runCommand failing_env ''npm test'' ''/repo'' start_world)"
  let ?w2 = "snd (apply_fix failing_env ''/repo'' ''task'' test_plan ''diff'' ''npm test'' ?res ?w1)"
  have f1: "fst (runCommand failing_env ''npm test'' ''/repo'' start_world) = Inr ?res"
    by code_simp
  have f2: "fst (apply_fix failing_env ''/repo'' ''task'' test_plan ''diff'' ''npm test'' ?res ?w1)
              = Inl NoFilesInDiff"
    by code_simp
  have g1: "runCommand failing_env ''npm test'' ''/repo'' start_world = (Inr ?res, ?w1)"
    using f1 by (simp add: prod_eq_iff)
  have g2: "apply_fix failing_env ''/repo'' ''task'' test_plan ''diff'' ''npm test'' ?res ?w1
              = (Inl NoFilesInDiff, ?w2)"
    using f2 by (simp add: prod_eq_iff)
  have g3: "exitCode ?res \<noteq> 0" by simp
  have g4: "(2::nat) < 3" by simp
  note th = verifyCommands_three_attempts
             [of failing_env "''npm test''" "''/repo''" "''task''" test_plan "''diff''" "[]"
                 start_world _ _ 2 ?res ?w1 NoFilesInDiff ?w2]
  have "verify_loop failing_env ''/repo'' ''task'' test_plan ''diff'' [''npm test''] 2 start_world
          = ((Inl NoFilesInDiff, 2 + 1), ?w2)"
    by (rule th [THEN conjunct2, THEN conjunct2, THEN conjunct2, THEN conjunct2, THEN conjunct1,
                 rule_format, OF conjI [OF g4 conjI [OF g1 conjI [OF g3 g2]]]])
  then have a6: "fst (verify_loop failing_env ''/repo'' ''task'' test_plan ''diff'' [''npm test''] 2
                        start_world) = (Inl NoFilesInDiff, 3)"
    by simp
  show ?thesis
    by (intro conjI)
       (rule a1, rule a2, rule a3, rule ra, rule a4, rule a5, rule f1, rule f2, rule a6)
qed

end
